theory Spec2Isabelle
  imports Complex_Main "HOL-Library.Log_Nat"
begin

section \<open>Python values used by \<^verbatim>\<open>app.py\<close>\<close>

text \<open>
  The application is one class, \<^verbatim>\<open>ImageFilterApp\<close>, whose methods are Tk callbacks.
  Every callback reads and writes the fields of \<^verbatim>\<open>self\<close>, calls the imaging library
  (Pillow) and the widget toolkit (Tk), and catches \<^verbatim>\<open>Exception\<close> around most of its body.
  The model passes the object explicitly as a record, takes the imaging library as a
  parameter (a record of functions that either raise or return), and makes every
  \<^verbatim>\<open>raise\<close> a value of type \<open>exn + 'a\<close>.
\<close>

datatype exn =
    ZeroDivisionError
  | OverflowError string
  | LibraryError string

text \<open>\<^verbatim>\<open>str(e)\<close>, as the handlers put it into their error dialogs.\<close>

fun str_exn :: "exn \<Rightarrow> string" where
  "str_exn ZeroDivisionError = ''division by zero''"
| "str_exn (OverflowError m) = m"
| "str_exn (LibraryError m) = m"

text \<open>Sequencing of calls that may raise: the first exception ends the sequence.\<close>

definition and_then :: "exn + 'a \<Rightarrow> ('a \<Rightarrow> exn + 'b) \<Rightarrow> exn + 'b" where
  "and_then r f = (case r of Inl e \<Rightarrow> Inl e | Inr x \<Rightarrow> f x)"

subsection \<open>Binary64 floats\<close>

text \<open>
  A Python \<^verbatim>\<open>float\<close> is an IEEE 754 binary64 number. A finite float is modelled by the
  rational it denotes; \<open>fl\<close> rounds a rational to the nearest float, ties to even, with
  the gradual underflow of the format (the exponent of the last place is never below
  \<open>-1074\<close>). A result of magnitude \<open>2 ^ 1024\<close> or more after rounding is an overflow,
  which the operations below turn into what Python does with it.
\<close>

definition round_half_even :: "rat \<Rightarrow> int" where
  "round_half_even x =
     (let f = \<lfloor>x\<rfloor>; d = x - of_int f
      in if d < 1 / 2 then f else if 1 / 2 < d then f + 1
         else if even f then f else f + 1)"

text \<open>\<open>floor_log2 x\<close> is the \<open>k\<close> with \<open>2 powi k \<le> \<bar>x\<bar> < 2 powi (k + 1)\<close>, for \<open>x \<noteq> 0\<close>.\<close>

definition floor_log2 :: "rat \<Rightarrow> int" where
  "floor_log2 x =
     (let (p, q) = quotient_of \<bar>x\<bar>; d = bitlen p - bitlen q
      in if 2 powi d \<le> \<bar>x\<bar> then d else d - 1)"

definition float_exp :: "rat \<Rightarrow> int" where
  "float_exp x = max (floor_log2 x - 52) (- 1074)"

definition fl :: "rat \<Rightarrow> rat" where
  "fl x = (let e = float_exp x in of_int (round_half_even (x / 2 powi e)) * 2 powi e)"

definition float_overflow :: "rat \<Rightarrow> bool" where
  "float_overflow x = (2 ^ 1024 \<le> \<bar>x\<bar>)"

text \<open>
  \<^verbatim>\<open>a / b\<close> on two \<^verbatim>\<open>int\<close>s: true division, correctly rounded; it raises on a zero
  divisor and when the quotient is too large for a float.
\<close>

definition py_truediv :: "int \<Rightarrow> int \<Rightarrow> exn + rat" where
  "py_truediv a b =
     (if b = 0 then Inl ZeroDivisionError
      else let r = fl (of_int a / of_int b)
           in if float_overflow r
              then Inl (OverflowError ''integer division result too large for a float'')
              else Inr r)"

text \<open>
  \<^verbatim>\<open>int(n * x)\<close> for an \<^verbatim>\<open>int\<close> \<open>n\<close> and a finite \<^verbatim>\<open>float\<close> \<open>x\<close>: \<open>n\<close> is converted to a
  float (which raises when it is too large), the product is rounded, and \<^verbatim>\<open>int\<close> truncates
  towards zero; on an infinite product \<^verbatim>\<open>int\<close> raises.
\<close>

definition truncate_rat :: "rat \<Rightarrow> int" where
  "truncate_rat x = (if 0 \<le> x then \<lfloor>x\<rfloor> else \<lceil>x\<rceil>)"

definition py_int_of_product :: "int \<Rightarrow> rat \<Rightarrow> exn + int" where
  "py_int_of_product n x =
     (let f = fl (of_int n)
      in if float_overflow f then Inl (OverflowError ''int too large to convert to float'')
         else let p = fl (f * x)
              in if float_overflow p
                 then Inl (OverflowError ''cannot convert float infinity to integer'')
                 else Inr (truncate_rat p))"

text \<open>\<^verbatim>\<open>os.path.basename\<close> (POSIX): what follows the last slash.\<close>

definition basename :: "string \<Rightarrow> string" where
  "basename p = rev (takeWhile (\<lambda>c. c \<noteq> CHR ''/'') (rev p))"

section \<open>The imaging library\<close>

text \<open>
  An image has a mode (\<^verbatim>\<open>"L"\<close>, \<^verbatim>\<open>"RGB"\<close>, \<^verbatim>\<open>"P"\<close>, ...), a size (width, height) and its
  pixels in row order, each pixel the list of its band values.
\<close>

record image =
  img_mode :: string
  img_size :: "int \<times> int"
  img_data :: "nat list list"

datatype image_filter = BLUR | SHARPEN | EDGE_ENHANCE_MORE | FIND_EDGES

datatype resampling = LANCZOS

datatype photo_image = PhotoImage image

text \<open>
  The library calls \<^verbatim>\<open>app.py\<close> makes. Each may raise. \<open>ImageEnhance_Color\<close> stands for
  \<^verbatim>\<open>ImageEnhance.Color(img).enhance(factor)\<close>.
\<close>

record pil =
  Image_open :: "string \<Rightarrow> exn + image"
  Image_copy :: "image \<Rightarrow> exn + image"
  Image_convert :: "image \<Rightarrow> string \<Rightarrow> exn + image"
  Image_filter :: "image \<Rightarrow> image_filter \<Rightarrow> exn + image"
  Image_quantize :: "image \<Rightarrow> nat \<Rightarrow> exn + image"
  Image_resize :: "image \<Rightarrow> int \<times> int \<Rightarrow> resampling \<Rightarrow> exn + image"
  Image_save :: "image \<Rightarrow> string \<Rightarrow> exn + unit"
  ImageEnhance_Color :: "image \<Rightarrow> rat \<Rightarrow> exn + image"
  ImageTk_PhotoImage :: "image \<Rightarrow> exn + photo_image"

section \<open>The application object\<close>

datatype tk_state = NORMAL | DISABLED

record button =
  btn_text :: string
  btn_state :: tk_state

text \<open>\<^verbatim>\<open>tk.Button(..., text=t, state=s)\<close>; a button created without \<^verbatim>\<open>state\<close> is \<open>NORMAL\<close>.\<close>

definition Button :: "string \<Rightarrow> tk_state option \<Rightarrow> button" where
  "Button t st = \<lparr>btn_text = t, btn_state = (case st of None \<Rightarrow> NORMAL | Some s \<Rightarrow> s)\<rparr>"

definition config_state :: "tk_state \<Rightarrow> button \<Rightarrow> button" where
  "config_state st b = b\<lparr>btn_state := st\<rparr>"

record label =
  lbl_text :: string
  lbl_fg :: string

datatype dialog =
    Showerror string string
  | Showinfo string string
  | Showwarning string string

text \<open>
  The fields of \<^verbatim>\<open>self\<close>, the widgets \<^verbatim>\<open>create_widgets\<close> builds, what the canvas answers
  to \<^verbatim>\<open>winfo_width()\<close> and \<^verbatim>\<open>winfo_height()\<close>, the items drawn on it, and the modal
  dialogs shown so far (oldest first).
\<close>

record app =
  original_image :: "image option"
  processed_image :: "image option"
  display_image :: "photo_image option"
  upload_btn :: button
  save_btn :: button
  reset_btn :: button
  filter_buttons :: "button list"
  canvas_winfo :: "int \<times> int"
  canvas_items :: "(int \<times> int \<times> photo_image) list"
  status_label :: label
  messageboxes :: "dialog list"

text \<open>
  \<^verbatim>\<open>__init__\<close> and \<^verbatim>\<open>create_widgets\<close>. The upload and reset buttons are created without a
  \<^verbatim>\<open>state\<close> option; the save button and the five filter buttons with
  \<^verbatim>\<open>state=tk.DISABLED\<close>. Before the first layout pass the canvas reports a width and a
  height of 1.
\<close>

definition filter_names :: "string list" where
  "filter_names = [''Black & White'', ''Blur'', ''Sharpen'', ''Cartoon'', ''Edge Detection'']"

definition create_widgets :: app where
  "create_widgets =
     \<lparr>original_image = None,
      processed_image = None,
      display_image = None,
      upload_btn = Button ''Upload Image'' None,
      save_btn = Button ''Save Image'' (Some DISABLED),
      reset_btn = Button ''Reset'' None,
      filter_buttons = map (\<lambda>filter_name. Button filter_name (Some DISABLED)) filter_names,
      canvas_winfo = (1, 1),
      canvas_items = [],
      status_label = \<lparr>lbl_text = ''Please upload an image to get started'', lbl_fg = ''gray''\<rparr>,
      messageboxes = []\<rparr>"

definition showerror :: "string \<Rightarrow> string \<Rightarrow> app \<Rightarrow> app" where
  "showerror title msg s = s\<lparr>messageboxes := messageboxes s @ [Showerror title msg]\<rparr>"

definition showinfo :: "string \<Rightarrow> string \<Rightarrow> app \<Rightarrow> app" where
  "showinfo title msg s = s\<lparr>messageboxes := messageboxes s @ [Showinfo title msg]\<rparr>"

definition showwarning :: "string \<Rightarrow> string \<Rightarrow> app \<Rightarrow> app" where
  "showwarning title msg s = s\<lparr>messageboxes := messageboxes s @ [Showwarning title msg]\<rparr>"

definition status_config :: "string \<Rightarrow> string \<Rightarrow> app \<Rightarrow> app" where
  "status_config t fg s = s\<lparr>status_label := \<lparr>lbl_text = t, lbl_fg = fg\<rparr>\<rparr>"

subsection \<open>\<^verbatim>\<open>display_image_on_canvas\<close>\<close>

text \<open>The canvas dimensions the renderer works with: 800 by 500 while the canvas reports
  a dimension of at most 1.\<close>

definition canvas_dims :: "int \<times> int \<Rightarrow> int \<times> int" where
  "canvas_dims winfo =
     (let canvas_width = fst winfo; canvas_height = snd winfo
      in (if canvas_width \<le> 1 then 800 else canvas_width,
          if canvas_height \<le> 1 then 500 else canvas_height))"

text \<open>The scale factor: \<^verbatim>\<open>min(scale_w, scale_h, 1.0)\<close>.\<close>

definition preview_scale :: "int \<times> int \<Rightarrow> int \<times> int \<Rightarrow> exn + rat" where
  "preview_scale winfo sz =
     (let (canvas_width, canvas_height) = canvas_dims winfo;
          (img_width, img_height) = sz
      in and_then (py_truediv (canvas_width - 20) img_width) (\<lambda>scale_w.
         and_then (py_truediv (canvas_height - 20) img_height) (\<lambda>scale_h.
         Inr (min (min scale_w scale_h) 1))))"

text \<open>The size handed to \<^verbatim>\<open>image.resize\<close>: \<^verbatim>\<open>(int(img_width * scale), int(img_height * scale))\<close>.\<close>

definition preview_size :: "int \<times> int \<Rightarrow> int \<times> int \<Rightarrow> exn + int \<times> int" where
  "preview_size winfo sz =
     and_then (preview_scale winfo sz) (\<lambda>scale.
     and_then (py_int_of_product (fst sz) scale) (\<lambda>new_width.
     and_then (py_int_of_product (snd sz) scale) (\<lambda>new_height.
     Inr (new_width, new_height))))"

text \<open>
  The renderer raises before it changes anything: the arithmetic, \<^verbatim>\<open>resize\<close> and
  \<^verbatim>\<open>PhotoImage\<close> all come before the assignment to \<^verbatim>\<open>self.display_image\<close> and the two
  canvas calls. It never touches the original or the processed image.
\<close>

definition display_image_on_canvas :: "pil \<Rightarrow> image \<Rightarrow> app \<Rightarrow> exn + app" where
  "display_image_on_canvas lib img s =
     and_then (preview_size (canvas_winfo s) (img_size img)) (\<lambda>new_size.
     and_then (Image_resize lib img new_size LANCZOS) (\<lambda>display_img.
     and_then (ImageTk_PhotoImage lib display_img) (\<lambda>photo.
     let (canvas_width, canvas_height) = canvas_dims (canvas_winfo s)
     in Inr (s\<lparr>display_image := Some photo,
               canvas_items := [(canvas_width div 2, canvas_height div 2, photo)]\<rparr>))))"

subsection \<open>\<^verbatim>\<open>upload_image\<close>\<close>

text \<open>
  A \<^verbatim>\<open>try\<close> block is a function to the object as the block leaves it, with the exception
  that ended it if one did: what was assigned before the \<^verbatim>\<open>raise\<close> stays assigned.
\<close>

definition upload_try :: "pil \<Rightarrow> string \<Rightarrow> app \<Rightarrow> app \<times> exn option" where
  "upload_try lib file_path s =
     (case Image_open lib file_path of
        Inl e \<Rightarrow> (s, Some e)
      | Inr img \<Rightarrow>
          let s1 = s\<lparr>original_image := Some img\<rparr>
          in (case Image_copy lib img of
                Inl e \<Rightarrow> (s1, Some e)
              | Inr c \<Rightarrow>
                  let s2 = s1\<lparr>processed_image := Some c\<rparr>;
                      s3 = s2\<lparr>filter_buttons := map (config_state NORMAL) (filter_buttons s2)\<rparr>;
                      s4 = s3\<lparr>save_btn := config_state NORMAL (save_btn s3)\<rparr>
                  in (case display_image_on_canvas lib img s4 of
                        Inl e \<Rightarrow> (s4, Some e)
                      | Inr s5 \<Rightarrow>
                          (status_config (''Image loaded: '' @ basename file_path) ''green'' s5,
                           None))))"

text \<open>\<open>file_path\<close> is what the file dialog returned: the empty string when cancelled.\<close>

definition upload_image :: "pil \<Rightarrow> string \<Rightarrow> app \<Rightarrow> app" where
  "upload_image lib file_path s =
     (if file_path = [] then s
      else case upload_try lib file_path s of
             (s', None) \<Rightarrow> s'
           | (s', Some e) \<Rightarrow> showerror ''Error'' (''Failed to load image: '' @ str_exn e) s')"

subsection \<open>The five filter handlers\<close>

text \<open>The image each handler computes from \<^verbatim>\<open>self.original_image\<close>.\<close>

definition black_white_image :: "pil \<Rightarrow> image \<Rightarrow> exn + image" where
  "black_white_image lib original =
     and_then (Image_convert lib original ''L'') (\<lambda>g. Image_convert lib g ''RGB'')"

definition blur_image :: "pil \<Rightarrow> image \<Rightarrow> exn + image" where
  "blur_image lib original = Image_filter lib original BLUR"

definition sharpen_image :: "pil \<Rightarrow> image \<Rightarrow> exn + image" where
  "sharpen_image lib original = Image_filter lib original SHARPEN"

text \<open>The float literal \<^verbatim>\<open>1.2\<close>.\<close>

definition saturation_factor :: rat where
  "saturation_factor = fl (12 / 10)"

definition cartoon_image :: "pil \<Rightarrow> image \<Rightarrow> exn + image" where
  "cartoon_image lib original =
     and_then (Image_copy lib original) (\<lambda>img.
     and_then (if img_mode img \<noteq> ''RGB'' then Image_convert lib img ''RGB'' else Inr img) (\<lambda>img.
     and_then (Image_quantize lib img 64) (\<lambda>q.
     and_then (Image_convert lib q ''RGB'') (\<lambda>img.
     and_then (Image_filter lib img EDGE_ENHANCE_MORE) (\<lambda>img.
     ImageEnhance_Color lib img saturation_factor)))))"

definition edge_detection_image :: "pil \<Rightarrow> image \<Rightarrow> exn + image" where
  "edge_detection_image lib original =
     and_then (Image_convert lib original ''L'') (\<lambda>gray.
     and_then (Image_filter lib gray FIND_EDGES) (\<lambda>edges.
     Image_convert lib edges ''RGB''))"

text \<open>
  The rest of every handler's \<^verbatim>\<open>try\<close> block is the same three statements: assign
  \<^verbatim>\<open>self.processed_image\<close>, render it, set the status line.
\<close>

definition filter_try :: "pil \<Rightarrow> exn + image \<Rightarrow> string \<Rightarrow> app \<Rightarrow> app \<times> exn option" where
  "filter_try lib result status s =
     (case result of
        Inl e \<Rightarrow> (s, Some e)
      | Inr img \<Rightarrow>
          let s1 = s\<lparr>processed_image := Some img\<rparr>
          in (case display_image_on_canvas lib img s1 of
                Inl e \<Rightarrow> (s1, Some e)
              | Inr s2 \<Rightarrow> (status_config status ''blue'' s2, None)))"

definition filter_except :: "app \<times> exn option \<Rightarrow> app" where
  "filter_except r =
     (case r of
        (s', None) \<Rightarrow> s'
      | (s', Some e) \<Rightarrow> showerror ''Error'' (''Failed to apply filter: '' @ str_exn e) s')"

definition apply_black_white :: "pil \<Rightarrow> app \<Rightarrow> app" where
  "apply_black_white lib s =
     (case original_image s of
        None \<Rightarrow> s
      | Some original \<Rightarrow>
          filter_except (filter_try lib (black_white_image lib original)
            ''Filter applied: Black & White'' s))"

definition apply_blur :: "pil \<Rightarrow> app \<Rightarrow> app" where
  "apply_blur lib s =
     (case original_image s of
        None \<Rightarrow> s
      | Some original \<Rightarrow>
          filter_except (filter_try lib (blur_image lib original) ''Filter applied: Blur'' s))"

definition apply_sharpen :: "pil \<Rightarrow> app \<Rightarrow> app" where
  "apply_sharpen lib s =
     (case original_image s of
        None \<Rightarrow> s
      | Some original \<Rightarrow>
          filter_except (filter_try lib (sharpen_image lib original) ''Filter applied: Sharpen'' s))"

definition apply_cartoon :: "pil \<Rightarrow> app \<Rightarrow> app" where
  "apply_cartoon lib s =
     (case original_image s of
        None \<Rightarrow> s
      | Some original \<Rightarrow>
          filter_except (filter_try lib (cartoon_image lib original) ''Filter applied: Cartoon'' s))"

definition apply_edge_detection :: "pil \<Rightarrow> app \<Rightarrow> app" where
  "apply_edge_detection lib s =
     (case original_image s of
        None \<Rightarrow> s
      | Some original \<Rightarrow>
          filter_except (filter_try lib (edge_detection_image lib original)
            ''Filter applied: Edge Detection'' s))"

subsection \<open>\<^verbatim>\<open>save_image\<close> and \<^verbatim>\<open>reset_image\<close>\<close>

definition save_image :: "pil \<Rightarrow> string \<Rightarrow> app \<Rightarrow> app" where
  "save_image lib file_path s =
     (case processed_image s of
        None \<Rightarrow> showwarning ''Warning'' ''No processed image to save!'' s
      | Some processed \<Rightarrow>
          if file_path = [] then s
          else (case Image_save lib processed file_path of
                  Inl e \<Rightarrow> showerror ''Error'' (''Failed to save image: '' @ str_exn e) s
                | Inr _ \<Rightarrow>
                    status_config (''Image saved: '' @ basename file_path) ''green''
                      (showinfo ''Success'' (''Image saved successfully to:\<newline>'' @ file_path) s)))"

text \<open>
  \<^verbatim>\<open>reset_image\<close> has no \<^verbatim>\<open>try\<close>: an exception leaves the callback, with the object as it
  is at that point.
\<close>

definition reset_image :: "pil \<Rightarrow> app \<Rightarrow> app \<times> exn option" where
  "reset_image lib s =
     (case original_image s of
        None \<Rightarrow> (s, None)
      | Some original \<Rightarrow>
          (case Image_copy lib original of
             Inl e \<Rightarrow> (s, Some e)
           | Inr c \<Rightarrow>
               let s1 = s\<lparr>processed_image := Some c\<rparr>
               in (case display_image_on_canvas lib original s1 of
                     Inl e \<Rightarrow> (s1, Some e)
                   | Inr s2 \<Rightarrow> (status_config ''Image reset to original'' ''orange'' s2, None))))"

subsection \<open>Sessions\<close>

datatype filter_kind = Black_White | Blur | Sharpen | Cartoon | Edge_Detection

fun filter_image :: "pil \<Rightarrow> filter_kind \<Rightarrow> image \<Rightarrow> exn + image" where
  "filter_image lib Black_White = black_white_image lib"
| "filter_image lib Blur = blur_image lib"
| "filter_image lib Sharpen = sharpen_image lib"
| "filter_image lib Cartoon = cartoon_image lib"
| "filter_image lib Edge_Detection = edge_detection_image lib"

fun apply_filter :: "pil \<Rightarrow> filter_kind \<Rightarrow> app \<Rightarrow> app" where
  "apply_filter lib Black_White = apply_black_white lib"
| "apply_filter lib Blur = apply_blur lib"
| "apply_filter lib Sharpen = apply_sharpen lib"
| "apply_filter lib Cartoon = apply_cartoon lib"
| "apply_filter lib Edge_Detection = apply_edge_detection lib"

text \<open>
  What the user does: the buttons, with the path a file dialog returned, and resizing the
  window, which changes what the canvas reports. Tk's event loop runs one callback to its
  end before the next, and goes on after a callback that raised.
\<close>

datatype event =
    Upload string
  | Save string
  | Reset
  | Filter filter_kind
  | Configure int int

fun step :: "pil \<Rightarrow> app \<Rightarrow> event \<Rightarrow> app" where
  "step lib s (Upload file_path) = upload_image lib file_path s"
| "step lib s (Save file_path) = save_image lib file_path s"
| "step lib s Reset = fst (reset_image lib s)"
| "step lib s (Filter k) = apply_filter lib k s"
| "step lib s (Configure w h) = s\<lparr>canvas_winfo := (w, h)\<rparr>"

definition run :: "pil \<Rightarrow> app \<Rightarrow> event list \<Rightarrow> app" where
  "run lib s evs = foldl (step lib) s evs"

section \<open>A small instance of the library\<close>

text \<open>
  An executable instance of the record \<open>pil\<close>, for evaluating the handlers on concrete
  sessions. It keeps what matters to the handlers: a file whose header cannot be read is
  refused by \<open>open\<close>; a file with a good header and missing pixel data is opened (the
  library reads pixel data only when an operation needs it) and refused by every
  operation that needs the pixels; \<open>resize\<close> refuses a size that is not positive. The
  convolution kernels are replaced by point operations.
\<close>

definition photo :: image where
  "photo = \<lparr>img_mode = ''RGB'', img_size = (2, 2),
            img_data = [[255, 0, 0], [0, 255, 0], [0, 0, 255], [100, 100, 100]]\<rparr>"

definition banner :: image where
  "banner = \<lparr>img_mode = ''RGB'', img_size = (1560, 1), img_data = replicate 1560 [200, 100, 50]\<rparr>"

definition truncated :: image where
  "truncated = \<lparr>img_mode = ''RGB'', img_size = (2, 2), img_data = []\<rparr>"

definition swatch :: image where
  "swatch = \<lparr>img_mode = ''RGB'', img_size = (1, 1), img_data = [[100, 70, 20]]\<rparr>"

definition demo_open :: "string \<Rightarrow> exn + image" where
  "demo_open file_path =
     (if file_path = ''photo.png'' then Inr photo
      else if file_path = ''banner.png'' then Inr banner
      else if file_path = ''truncated.png'' then Inr truncated
      else if file_path = ''swatch.png'' then Inr swatch
      else Inl (LibraryError ''cannot identify image file''))"

definition demo_load :: "image \<Rightarrow> exn + image" where
  "demo_load img =
     (if int (length (img_data img)) = fst (img_size img) * snd (img_size img) then Inr img
      else Inl (LibraryError ''image file is truncated''))"

definition luminance :: "nat list \<Rightarrow> nat" where
  "luminance px =
     (case px of
        [r, g, b] \<Rightarrow> (r * 299 + g * 587 + b * 114) div 1000
      | v # _ \<Rightarrow> v
      | [] \<Rightarrow> 0)"

definition palette_index :: "nat list \<Rightarrow> nat" where
  "palette_index px =
     (case px of
        [r, g, b] \<Rightarrow> (r div 64) * 16 + (g div 64) * 4 + b div 64
      | _ \<Rightarrow> 0)"

definition palette_colour :: "nat \<Rightarrow> nat list" where
  "palette_colour i = [(i div 16) * 64, ((i div 4) mod 4) * 64, (i mod 4) * 64]"

definition to_rgb :: "string \<Rightarrow> nat list \<Rightarrow> nat list" where
  "to_rgb m px =
     (if m = ''RGB'' then px
      else if m = ''P'' then palette_colour (luminance px)
      else [luminance px, luminance px, luminance px])"

definition demo_convert :: "image \<Rightarrow> string \<Rightarrow> exn + image" where
  "demo_convert img m =
     and_then (demo_load img) (\<lambda>img.
       if m = ''L'' then Inr (img\<lparr>img_mode := ''L'', img_data := map (\<lambda>px. [luminance px]) (img_data img)\<rparr>)
       else if m = ''RGB''
       then Inr (img\<lparr>img_mode := ''RGB'', img_data := map (to_rgb (img_mode img)) (img_data img)\<rparr>)
       else Inl (LibraryError ''conversion not supported''))"

fun point_op :: "image_filter \<Rightarrow> nat \<Rightarrow> nat" where
  "point_op BLUR v = (v + 128) div 2"
| "point_op SHARPEN v = min 255 (2 * v)"
| "point_op EDGE_ENHANCE_MORE v = min 255 (3 * v)"
| "point_op FIND_EDGES v = 255 - v"

definition demo_filter :: "image \<Rightarrow> image_filter \<Rightarrow> exn + image" where
  "demo_filter img k =
     and_then (demo_load img) (\<lambda>img. Inr (img\<lparr>img_data := map (map (point_op k)) (img_data img)\<rparr>))"

definition demo_quantize :: "image \<Rightarrow> nat \<Rightarrow> exn + image" where
  "demo_quantize img colors =
     and_then (demo_load img) (\<lambda>img.
       Inr (img\<lparr>img_mode := ''P'', img_data := map (\<lambda>px. [palette_index px]) (img_data img)\<rparr>))"

definition demo_resize :: "image \<Rightarrow> int \<times> int \<Rightarrow> resampling \<Rightarrow> exn + image" where
  "demo_resize img new_size resample =
     (if fst new_size < 1 \<or> snd new_size < 1
      then Inl (LibraryError ''height and width must be > 0'')
      else and_then (demo_load img) (\<lambda>img.
             Inr (img\<lparr>img_size := new_size,
                     img_data := replicate (nat (fst new_size) * nat (snd new_size))
                                   (case img_data img of [] \<Rightarrow> [] | px # _ \<Rightarrow> px)\<rparr>)))"

text \<open>
  The colour enhancement moves every band away from the pixel's luminance by the factor,
  and clips to a byte.
\<close>

definition clip :: "rat \<Rightarrow> nat" where
  "clip x = nat (min 255 (max 0 (truncate_rat x)))"

definition saturate :: "rat \<Rightarrow> nat list \<Rightarrow> nat list" where
  "saturate factor px =
     (let g = luminance px
      in map (\<lambda>v. clip (of_nat g + factor * (of_nat v - of_nat g))) px)"

definition demo_enhance :: "image \<Rightarrow> rat \<Rightarrow> exn + image" where
  "demo_enhance img factor =
     and_then (demo_load img) (\<lambda>img. Inr (img\<lparr>img_data := map (saturate factor) (img_data img)\<rparr>))"

definition demo_pil :: pil where
  "demo_pil =
     \<lparr>Image_open = demo_open,
      Image_copy = demo_load,
      Image_convert = demo_convert,
      Image_filter = demo_filter,
      Image_quantize = demo_quantize,
      Image_resize = demo_resize,
      Image_save = (\<lambda>img file_path. Inr ()),
      ImageEnhance_Color = demo_enhance,
      ImageTk_PhotoImage = (\<lambda>img. Inr (PhotoImage img))\<rparr>"

section \<open>What the claims speak of\<close>

definition filter_kinds :: "filter_kind list" where
  "filter_kinds = [Black_White, Blur, Sharpen, Cartoon, Edge_Detection]"

text \<open>
  \<open>p\<close> is the original image copied, or transformed by one filter handler's pipeline.
\<close>

definition derived :: "pil \<Rightarrow> image \<Rightarrow> image \<Rightarrow> bool" where
  "derived lib original p =
     (Image_copy lib original = Inr p \<or>
      (\<exists>k \<in> set filter_kinds. filter_image lib k original = Inr p))"

text \<open>
  The cartoon pipeline in the words of the specification: convert to RGB, quantize to a
  palette of 64 colours, convert back to RGB, enhance the edges, boost the saturation by
  1.2. The factor is written out: \<open>5404319552844595 / 2 ^ 52\<close> is the float nearest to
  \<open>12 / 10\<close>.
\<close>

definition cartoon_pipeline :: "pil \<Rightarrow> image \<Rightarrow> exn + image" where
  "cartoon_pipeline lib original =
     and_then (Image_convert lib original ''RGB'') (\<lambda>rgb.
     and_then (Image_quantize lib rgb 64) (\<lambda>quantized.
     and_then (Image_convert lib quantized ''RGB'') (\<lambda>flat.
     and_then (Image_filter lib flat EDGE_ENHANCE_MORE) (\<lambda>edged.
     ImageEnhance_Color lib edged (5404319552844595 / 4503599627370496)))))"

text \<open>An image whose every pixel has three bands of one value.\<close>

definition equal_rgb :: "image \<Rightarrow> bool" where
  "equal_rgb img =
     list_all (\<lambda>px. case px of [r, g, b] \<Rightarrow> r = g \<and> g = b | _ \<Rightarrow> False) (img_data img)"

text \<open>An image that has a pixel for every position of its width times its height.\<close>

definition complete :: "image \<Rightarrow> bool" where
  "complete img = (int (length (img_data img)) = fst (img_size img) * snd (img_size img))"

text \<open>
  What the library documents of its own operations, and the two gray handlers rely on:
  \<open>convert\<close> and \<open>filter\<close> return an image of the same size with all its pixels,
  \<open>convert\<close> in the mode asked for and \<open>filter\<close> in the mode of its argument, and
  converting a single-band \<^verbatim>\<open>"L"\<close> image to \<^verbatim>\<open>"RGB"\<close> copies the band into the three
  channels.
\<close>

definition converts_gray :: "pil \<Rightarrow> bool" where
  "converts_gray lib =
     (\<forall>img r.
        (\<forall>m. Image_convert lib img m = Inr r \<longrightarrow>
           img_mode r = m \<and> img_size r = img_size img \<and> complete r) \<and>
        (\<forall>k. Image_filter lib img k = Inr r \<longrightarrow>
           img_mode r = img_mode img \<and> img_size r = img_size img \<and> complete r) \<and>
        (img_mode img = ''L'' \<longrightarrow> Image_convert lib img ''RGB'' = Inr r \<longrightarrow> equal_rgb r))"

text \<open>None of the operations the filter handlers call changes the size of an image.\<close>

definition keeps_sizes :: "pil \<Rightarrow> bool" where
  "keeps_sizes lib =
     (\<forall>img r.
        (Image_copy lib img = Inr r \<longrightarrow> img_size r = img_size img) \<and>
        (\<forall>m. Image_convert lib img m = Inr r \<longrightarrow> img_size r = img_size img) \<and>
        (\<forall>k. Image_filter lib img k = Inr r \<longrightarrow> img_size r = img_size img) \<and>
        (\<forall>n. Image_quantize lib img n = Inr r \<longrightarrow> img_size r = img_size img) \<and>
        (\<forall>f. ImageEnhance_Color lib img f = Inr r \<longrightarrow> img_size r = img_size img))"

text \<open>
  An upload that gets as far as enabling the controls: a file was chosen, the library
  opened it and copied the image.
\<close>

definition loads :: "pil \<Rightarrow> event \<Rightarrow> bool" where
  "loads lib ev =
     (case ev of
        Upload file_path \<Rightarrow>
          file_path \<noteq> [] \<and>
          (case Image_open lib file_path of
             Inl e \<Rightarrow> False
           | Inr img \<Rightarrow> (case Image_copy lib img of Inl e \<Rightarrow> False | Inr c \<Rightarrow> True))
      | _ \<Rightarrow> False)"

text \<open>
  An upload that fails between opening the file and copying the image: the handler has
  assigned the original image by then.
\<close>

definition half_loads :: "pil \<Rightarrow> event \<Rightarrow> bool" where
  "half_loads lib ev =
     (case ev of
        Upload file_path \<Rightarrow>
          file_path \<noteq> [] \<and>
          (case Image_open lib file_path of
             Inl e \<Rightarrow> False
           | Inr img \<Rightarrow> (case Image_copy lib img of Inl e \<Rightarrow> True | Inr c \<Rightarrow> False))
      | _ \<Rightarrow> False)"

text \<open>The processed image, when there is one, is derived from the original image of now.\<close>

definition processed_derived :: "pil \<Rightarrow> app \<Rightarrow> bool" where
  "processed_derived lib s =
     (case processed_image s of
        None \<Rightarrow> True
      | Some p \<Rightarrow>
          (case original_image s of None \<Rightarrow> False | Some original \<Rightarrow> derived lib original p))"

section \<open>Rounding to a float\<close>

subsection \<open>The binary exponent\<close>

lemma bitlen_powi_bounds:
  assumes "0 < p"
  shows "(2::rat) powi (bitlen p - 1) \<le> of_int p" and "of_int p < (2::rat) powi (bitlen p)"
proof -
  have b: "1 \<le> bitlen p" using assms bitlen_eq_zero_iff[of p] bitlen_nonneg[of p] by linarith
  have "(2::int) ^ nat (bitlen p - 1) \<le> p" "p < 2 ^ nat (bitlen p)"
    using bitlen_bounds[OF assms] by auto
  then have "(of_int ((2::int) ^ nat (bitlen p - 1)) :: rat) \<le> of_int p"
    "(of_int p :: rat) < of_int (2 ^ nat (bitlen p))"
    by (simp_all only: of_int_le_iff of_int_less_iff)
  then show "(2::rat) powi (bitlen p - 1) \<le> of_int p" "of_int p < (2::rat) powi (bitlen p)"
    using b by (simp_all add: power_int_def)
qed

lemma floor_log2_bounds:
  assumes "x \<noteq> 0"
  shows "2 powi (floor_log2 x) \<le> \<bar>x\<bar>" and "\<bar>x\<bar> < 2 powi (floor_log2 x + 1)"
proof -
  obtain p q where pq: "quotient_of \<bar>x\<bar> = (p, q)" by (cases "quotient_of \<bar>x\<bar>")
  have q: "0 < q" using quotient_of_denom_pos[OF pq] .
  have xa: "\<bar>x\<bar> = of_int p / of_int q" using quotient_of_div[OF pq] .
  have p: "0 < p"
  proof -
    have "0 < \<bar>x\<bar>" using assms by simp
    then show ?thesis using q xa by (simp add: zero_less_divide_iff)
  qed
  let ?d = "bitlen p - bitlen q"
  have up: "\<bar>x\<bar> < 2 powi (?d + 1)"
  proof -
    have "of_int p < (2::rat) powi (bitlen p)" using bitlen_powi_bounds[OF p] by simp
    moreover have "(2::rat) powi (bitlen q - 1) \<le> of_int q" using bitlen_powi_bounds[OF q] by simp
    moreover have "(2::rat) powi (bitlen p) = 2 powi (?d + 1) * 2 powi (bitlen q - 1)"
      by (simp flip: power_int_add)
    moreover have "(0::rat) < 2 powi (?d + 1)" by simp
    ultimately have "of_int p < 2 powi (?d + 1) * (of_int q :: rat)"
      by (metis less_le_trans mult_left_mono less_imp_le)
    then show ?thesis using q xa by (simp add: pos_divide_less_eq)
  qed
  have lo: "2 powi (?d - 1) \<le> \<bar>x\<bar>"
  proof -
    have "(2::rat) powi (bitlen p - 1) \<le> of_int p" using bitlen_powi_bounds[OF p] by simp
    moreover have "of_int q \<le> (2::rat) powi (bitlen q)" using bitlen_powi_bounds[OF q] by simp
    moreover have "(2::rat) powi (bitlen p - 1) = 2 powi (?d - 1) * 2 powi (bitlen q)"
      by (simp flip: power_int_add)
    moreover have "(0::rat) < 2 powi (?d - 1)" by simp
    ultimately have "2 powi (?d - 1) * (of_int q :: rat) \<le> of_int p"
      by (metis order_trans mult_left_mono less_imp_le)
    then show ?thesis using q xa by (simp add: pos_le_divide_eq)
  qed
  have fl2: "floor_log2 x = (if 2 powi ?d \<le> \<bar>x\<bar> then ?d else ?d - 1)"
    by (simp add: floor_log2_def pq)
  show "2 powi (floor_log2 x) \<le> \<bar>x\<bar>" using lo by (simp add: fl2)
  show "\<bar>x\<bar> < 2 powi (floor_log2 x + 1)" using up by (auto simp add: fl2 not_le)
qed

lemma powi2_mono: "a \<le> b \<Longrightarrow> (2::rat) powi a \<le> 2 powi b"
  by (rule power_int_increasing) simp_all

lemma powi2_less_cancel: "(2::rat) powi a < 2 powi b \<Longrightarrow> a < b"
  using powi2_mono[of b a] by (cases "a < b") simp_all

lemma floor_log2_unique:
  assumes "2 powi k \<le> \<bar>x\<bar>" and "\<bar>x\<bar> < 2 powi (k + 1)"
  shows "floor_log2 x = k"
proof -
  have "(0::rat) < 2 powi k" by simp
  then have "0 < \<bar>x\<bar>" using assms(1) by (rule less_le_trans)
  then have x: "x \<noteq> 0" by simp
  note b = floor_log2_bounds[OF x]
  have "(2::rat) powi k < 2 powi (floor_log2 x + 1)" using assms(1) b(2) by linarith
  moreover have "(2::rat) powi (floor_log2 x) < 2 powi (k + 1)" using assms(2) b(1) by linarith
  ultimately show ?thesis using powi2_less_cancel[of k "floor_log2 x + 1"]
      powi2_less_cancel[of "floor_log2 x" "k + 1"] by linarith
qed

subsection \<open>Rounding to an integer\<close>

lemma round_half_even_cases:
  "round_half_even x = \<lfloor>x\<rfloor> \<and> x - of_int \<lfloor>x\<rfloor> \<le> 1 / 2 \<or>
   round_half_even x = \<lfloor>x\<rfloor> + 1 \<and> 1 / 2 \<le> x - of_int \<lfloor>x\<rfloor>"
  by (simp add: round_half_even_def Let_def)

lemma round_half_even_error: "\<bar>of_int (round_half_even x) - x\<bar> \<le> 1 / 2"
proof -
  have "of_int \<lfloor>x\<rfloor> \<le> x" "x < of_int \<lfloor>x\<rfloor> + 1" by linarith+
  then show ?thesis using round_half_even_cases[of x] by (auto simp: abs_le_iff)
qed

lemma round_half_even_of_int [simp]: "round_half_even (of_int n) = n"
  by (simp add: round_half_even_def)

lemma round_half_even_mono:
  assumes "x \<le> y"
  shows "round_half_even x \<le> round_half_even y"
proof (cases "\<lfloor>x\<rfloor> = \<lfloor>y\<rfloor>")
  case True
  then show ?thesis using assms by (auto simp add: round_half_even_def Let_def)
next
  case False
  then have "\<lfloor>x\<rfloor> + 1 \<le> \<lfloor>y\<rfloor>" using floor_mono[OF assms] by linarith
  moreover have "round_half_even x \<le> \<lfloor>x\<rfloor> + 1" using round_half_even_cases[of x] by auto
  moreover have "\<lfloor>y\<rfloor> \<le> round_half_even y" using round_half_even_cases[of y] by auto
  ultimately show ?thesis by linarith
qed

lemma round_half_even_minus: "round_half_even (- x) = - round_half_even x"
proof (cases "x \<in> \<int>")
  case True
  then obtain n where "x = of_int n" by (auto elim: Ints_cases)
  then show ?thesis by (simp flip: of_int_minus)
next
  case False
  have d: "x \<noteq> of_int \<lfloor>x\<rfloor>" using False by (metis Ints_of_int)
  then have f: "\<lfloor>- x\<rfloor> = - \<lfloor>x\<rfloor> - 1"
    by (simp add: floor_minus ceiling_altdef)
  show ?thesis
    using d by (auto simp add: round_half_even_def Let_def f)
qed

subsection \<open>Rounding to binary64: symmetry, monotonicity, exactness, relative error\<close>

lemma floor_log2_minus [simp]: "floor_log2 (- x) = floor_log2 x"
  by (simp add: floor_log2_def)

lemma float_exp_minus [simp]: "float_exp (- x) = float_exp x"
  by (simp add: float_exp_def)

lemma fl_minus: "fl (- x) = - fl x"
  by (simp add: fl_def Let_def round_half_even_minus)

lemma round_half_even_0 [simp]: "round_half_even 0 = 0"
  using round_half_even_of_int[of 0] by (simp del: round_half_even_of_int)

lemma round_half_even_numeral [simp]: "round_half_even (numeral k) = numeral k"
  using round_half_even_of_int[of "numeral k"] by (simp del: round_half_even_of_int)

lemma fl_0 [simp]: "fl 0 = 0"
  by (simp add: fl_def Let_def)

lemma fl_exact:
  assumes "x / 2 powi (float_exp x) = of_int n"
  shows "fl x = x"
proof -
  have "fl x = of_int n * 2 powi (float_exp x)"
    by (simp add: fl_def Let_def assms)
  also have "\<dots> = x" using assms by (simp flip: assms)
  finally show ?thesis .
qed

lemma float_exp_pos:
  assumes "0 < x"
  shows "x / 2 powi (float_exp x) < 2 ^ 53"
proof -
  have x0: "x \<noteq> 0" using assms by simp
  have "x < 2 powi (floor_log2 x + 1)" using floor_log2_bounds(2)[OF x0] assms by simp
  also have "\<dots> \<le> 2 powi (float_exp x + 53)"
    by (rule powi2_mono) (simp add: float_exp_def)
  also have "\<dots> = 2 ^ 53 * 2 powi (float_exp x)"
    by (simp add: power_int_add)
  finally show ?thesis by (simp add: pos_divide_less_eq)
qed

lemma float_exp_normal:
  assumes "0 < x" "- 1022 \<le> floor_log2 x"
  shows "2 ^ 52 \<le> x / 2 powi (float_exp x)"
proof -
  have x0: "x \<noteq> 0" using assms by simp
  have e: "float_exp x = floor_log2 x - 52" using assms(2) by (simp add: float_exp_def)
  have "2 ^ 52 * 2 powi (float_exp x) = (2::rat) powi (floor_log2 x)"
    by (simp add: e power_int_diff)
  also have "\<dots> \<le> x" using floor_log2_bounds(1)[OF x0] assms by simp
  finally show ?thesis by (simp add: pos_le_divide_eq)
qed

lemma fl_nonneg: "0 \<le> x \<Longrightarrow> 0 \<le> fl x"
proof -
  assume "0 \<le> x"
  then have "0 \<le> x / 2 powi (float_exp x)" by simp
  then have "round_half_even 0 \<le> round_half_even (x / 2 powi (float_exp x))"
    by (rule round_half_even_mono)
  then show ?thesis by (simp add: fl_def Let_def round_half_even_def)
qed

lemma fl_upper:
  assumes "0 < x"
  shows "fl x \<le> 2 powi (float_exp x + 53)"
proof -
  have "round_half_even (x / 2 powi (float_exp x)) \<le> round_half_even (of_int (2 ^ 53))"
    using float_exp_pos[OF assms] by (intro round_half_even_mono) simp
  then have "round_half_even (x / 2 powi (float_exp x)) \<le> 2 ^ 53" by simp
  then have "(of_int (round_half_even (x / 2 powi (float_exp x))) :: rat) \<le> of_int (2 ^ 53)"
    by (simp only: of_int_le_iff)
  then have "fl x \<le> 2 ^ 53 * 2 powi (float_exp x)"
    by (simp add: fl_def Let_def)
  then show ?thesis by (simp add: power_int_add)
qed

lemma fl_lower:
  assumes "0 < x" "- 1022 \<le> floor_log2 x"
  shows "2 powi (floor_log2 x) \<le> fl x"
proof -
  have e: "float_exp x = floor_log2 x - 52" using assms(2) by (simp add: float_exp_def)
  have "round_half_even (of_int (2 ^ 52)) \<le> round_half_even (x / 2 powi (float_exp x))"
    using float_exp_normal[OF assms] by (intro round_half_even_mono) simp
  then have "2 ^ 52 \<le> round_half_even (x / 2 powi (float_exp x))" by simp
  then have "(of_int (2 ^ 52) :: rat) \<le> of_int (round_half_even (x / 2 powi (float_exp x)))"
    by (simp only: of_int_le_iff)
  then have "2 ^ 52 * 2 powi (float_exp x) \<le> fl x"
    by (simp add: fl_def Let_def)
  then show ?thesis by (simp add: e power_int_diff)
qed

lemma fl_mono_pos:
  assumes "0 < x" "x \<le> y"
  shows "fl x \<le> fl y"
proof (cases "float_exp x = float_exp y")
  case True
  have "x / 2 powi (float_exp y) \<le> y / 2 powi (float_exp y)"
    using assms(2) by (simp add: divide_right_mono)
  then have "round_half_even (x / 2 powi (float_exp y)) \<le> round_half_even (y / 2 powi (float_exp y))"
    by (rule round_half_even_mono)
  then have "(of_int (round_half_even (x / 2 powi (float_exp y))) :: rat)
      \<le> of_int (round_half_even (y / 2 powi (float_exp y)))"
    by (simp only: of_int_le_iff)
  then show ?thesis by (simp add: fl_def Let_def True)
next
  case False
  have y: "0 < y" using assms by simp
  have x0: "x \<noteq> 0" and y0: "y \<noteq> 0" using assms by simp_all
  have "floor_log2 x \<le> floor_log2 y"
  proof -
    have "2 powi (floor_log2 x) \<le> x" using floor_log2_bounds(1)[OF x0] assms by simp
    also have "x \<le> y" by fact
    also have "y < 2 powi (floor_log2 y + 1)" using floor_log2_bounds(2)[OF y0] y by simp
    finally show ?thesis using powi2_less_cancel[of "floor_log2 x" "floor_log2 y + 1"] by simp
  qed
  then have lt: "float_exp x < float_exp y" and ny: "- 1022 \<le> floor_log2 y"
    using False by (auto simp add: float_exp_def max_def split: if_splits)
  have ey: "float_exp y = floor_log2 y - 52" using ny by (simp add: float_exp_def)
  have "fl x \<le> 2 powi (float_exp x + 53)" by (rule fl_upper[OF assms(1)])
  also have "\<dots> \<le> 2 powi (floor_log2 y)"
    by (rule powi2_mono) (use lt ey in simp)
  also have "\<dots> \<le> fl y" by (rule fl_lower[OF y ny])
  finally show ?thesis .
qed

lemma fl_mono:
  assumes "x \<le> y"
  shows "fl x \<le> fl y"
proof -
  consider "0 < x" | "x \<le> 0" "0 \<le> y" | "y < 0" by linarith
  then show ?thesis
  proof cases
    case 1
    then show ?thesis using assms by (rule fl_mono_pos)
  next
    case 2
    have "fl x \<le> 0" using fl_nonneg[of "- x"] 2(1) by (simp add: fl_minus)
    moreover have "0 \<le> fl y" using 2(2) by (rule fl_nonneg)
    ultimately show ?thesis by simp
  next
    case 3
    have "fl (- y) \<le> fl (- x)" using 3 assms by (intro fl_mono_pos) simp_all
    then show ?thesis by (simp add: fl_minus)
  qed
qed

lemma fl_of_int:
  assumes "\<bar>n\<bar> < 2 ^ 53"
  shows "fl (of_int n) = of_int n"
proof -
  have pos: "fl (of_int m) = of_int m" if m: "0 < m" "m < 2 ^ 53" for m :: int
  proof -
    let ?x = "of_int m :: rat"
    have x: "0 < ?x" "?x \<noteq> 0" using m by simp_all
    have "(2::rat) powi 0 \<le> ?x" using m by simp
    also have "?x < 2 powi (floor_log2 ?x + 1)" using floor_log2_bounds(2)[OF x(2)] x by simp
    finally have k0: "0 \<le> floor_log2 ?x" using powi2_less_cancel[of 0 "floor_log2 ?x + 1"] by simp
    have "2 powi (floor_log2 ?x) \<le> ?x" using floor_log2_bounds(1)[OF x(2)] x by simp
    also have "?x < of_int (2 ^ 53)" using m by (simp only: of_int_less_iff)
    also have "(of_int (2 ^ 53) :: rat) = 2 powi 53" by simp
    finally have k53: "floor_log2 ?x < 53" by (rule powi2_less_cancel)
    have e: "float_exp ?x = floor_log2 ?x - 52" using k0 by (simp add: float_exp_def)
    define j where "j = nat (52 - floor_log2 ?x)"
    have ej: "float_exp ?x = - int j" using k53 by (simp add: e j_def)
    have "?x / 2 powi (float_exp ?x) = of_int (m * 2 ^ j)"
      by (simp add: ej power_int_minus field_simps)
    then show ?thesis by (rule fl_exact)
  qed
  consider "0 < n" | "n = 0" | "n < 0" by linarith
  then show ?thesis
  proof cases
    case 1
    then show ?thesis using assms by (intro pos) simp_all
  next
    case 2
    then show ?thesis by simp
  next
    case 3
    then have "fl (of_int (- n)) = of_int (- n)" using assms by (intro pos) simp_all
    then show ?thesis by (simp add: fl_minus)
  qed
qed

lemma fl_powi2:
  assumes "- 1074 \<le> j"
  shows "fl (2 powi j) = 2 powi j"
proof -
  have "floor_log2 (2 powi j) = j"
    by (rule floor_log2_unique) (simp_all add: power_int_add)
  then have e: "float_exp (2 powi j) = max (j - 52) (- 1074)" by (simp add: float_exp_def)
  define i where "i = nat (j - max (j - 52) (- 1074))"
  have "j = max (j - 52) (- 1074) + int i" using assms by (simp add: i_def max_def)
  then have "(2::rat) powi j = 2 powi (max (j - 52) (- 1074)) * 2 ^ i"
    by (metis power_int_add power_int_of_nat zero_neq_numeral)
  then have "(2::rat) powi j / 2 powi (max (j - 52) (- 1074)) = of_int (2 ^ i)"
    by (simp add: field_simps)
  then have "(2::rat) powi j / 2 powi (float_exp (2 powi j)) = of_int (2 ^ i)"
    by (simp only: e)
  then show ?thesis by (rule fl_exact)
qed

lemma fl_abs_le_powi2:
  assumes "\<bar>x\<bar> \<le> 2 powi j" "- 1074 \<le> j"
  shows "\<bar>fl x\<bar> \<le> 2 powi j"
proof -
  have "fl x \<le> fl (2 powi j)" using assms(1) by (intro fl_mono) simp
  moreover have "fl (- (2 powi j)) \<le> fl x" using assms(1) by (intro fl_mono) (simp add: abs_le_iff)
  ultimately show ?thesis by (simp add: fl_powi2[OF assms(2)] fl_minus abs_le_iff)
qed

lemma fl_rel_upper:
  assumes "0 < x" "2 powi (- 1022) \<le> x"
  shows "fl x \<le> x * (1 + 2 powi (- 53))"
proof -
  have x0: "x \<noteq> 0" using assms by simp
  have "(2::rat) powi (- 1022) < 2 powi (floor_log2 x + 1)"
    using floor_log2_bounds(2)[OF x0] assms by simp
  then have n: "- 1022 \<le> floor_log2 x" using powi2_less_cancel[of "- 1022" "floor_log2 x + 1"] by simp
  then have e: "float_exp x = floor_log2 x - 52" by (simp add: float_exp_def)
  let ?m = "x / 2 powi (float_exp x)"
  have "of_int (round_half_even ?m) \<le> ?m + 1 / 2"
    using round_half_even_error[of ?m] by linarith
  then have "of_int (round_half_even ?m) * 2 powi (float_exp x) \<le> (?m + 1 / 2) * 2 powi (float_exp x)"
    by (intro mult_right_mono) simp_all
  then have "fl x \<le> x + 2 powi (float_exp x) / 2"
    by (simp add: fl_def Let_def algebra_simps)
  also have "2 powi (float_exp x) / 2 = 2 powi (floor_log2 x) * (2::rat) powi (- 53)"
    by (simp add: e power_int_diff power_int_minus field_simps)
  also have "\<dots> \<le> x * 2 powi (- 53)"
    using floor_log2_bounds(1)[OF x0] assms by (intro mult_right_mono) simp_all
  finally show ?thesis by (simp add: algebra_simps)
qed

section \<open>The arithmetic of the preview\<close>

subsection \<open>Truncation, division and the scaled product\<close>

lemma truncate_rat_of_int [simp]: "truncate_rat (of_int n) = n"
  by (simp add: truncate_rat_def)

lemma truncate_rat_mono: "x \<le> y \<Longrightarrow> truncate_rat x \<le> truncate_rat y"
proof -
  assume xy: "x \<le> y"
  have "\<lfloor>x\<rfloor> \<le> \<lfloor>y\<rfloor>" "\<lceil>x\<rceil> \<le> \<lceil>y\<rceil>" using xy by (simp_all add: floor_mono ceiling_mono)
  moreover have "\<lfloor>x\<rfloor> \<le> \<lceil>x\<rceil>" "\<lfloor>y\<rfloor> \<le> \<lceil>y\<rceil>" by (simp_all add: floor_le_ceiling)
  moreover have "x < 0 \<Longrightarrow> 0 \<le> y \<Longrightarrow> \<lceil>x\<rceil> \<le> \<lfloor>y\<rfloor>"
  proof -
    assume "x < 0" "0 \<le> y"
    then have "\<lceil>x\<rceil> \<le> 0" "0 \<le> \<lfloor>y\<rfloor>" by (simp_all add: ceiling_le_zero)
    then show ?thesis by linarith
  qed
  ultimately show ?thesis using xy by (auto simp add: truncate_rat_def)
qed

lemma not_float_overflow: "\<bar>x\<bar> \<le> 2 powi j \<Longrightarrow> j < 1024 \<Longrightarrow> \<not> float_overflow x"
proof -
  assume a: "\<bar>x\<bar> \<le> 2 powi j" "j < 1024"
  have "(2::rat) powi j < 2 powi 1024" using a(2) by (intro power_int_strict_increasing) simp_all
  then show ?thesis using a(1) by (simp add: float_overflow_def)
qed

lemma fl_abs_le_numeral:
  assumes "\<bar>x\<bar> \<le> 2 ^ n" 
  shows "\<bar>fl x\<bar> \<le> 2 ^ n"
  using fl_abs_le_powi2[of x "int n"] assms by simp

lemma py_truediv_eq:
  assumes "b \<noteq> 0" "\<bar>a\<bar> \<le> 2 ^ 31"
  shows "py_truediv a b = Inr (fl (of_int a / of_int b))"
proof -
  have "\<bar>of_int a / of_int b :: rat\<bar> \<le> \<bar>of_int a\<bar>"
  proof -
    have "1 \<le> \<bar>b\<bar>" using assms(1) by simp
    then have "(1::rat) \<le> \<bar>of_int b\<bar>" by (metis of_int_1 of_int_abs of_int_le_iff)
    then have "\<bar>of_int a :: rat\<bar> * 1 \<le> \<bar>of_int a\<bar> * \<bar>of_int b\<bar>"
      by (intro mult_left_mono) simp_all
    then show ?thesis using assms(1) by (simp add: divide_le_eq)
  qed
  also have "\<dots> \<le> 2 ^ 31" using assms(2) by (metis of_int_abs of_int_le_iff of_int_numeral of_int_power)
  finally have "\<bar>fl (of_int a / of_int b)\<bar> \<le> 2 powi 31" 
    using fl_abs_le_powi2[of "of_int a / of_int b" 31] by simp
  then have "\<not> float_overflow (fl (of_int a / of_int b))"
    by (rule not_float_overflow) simp
  then show ?thesis using assms(1) by (simp add: py_truediv_def Let_def)
qed

lemma py_int_of_product_eq:
  assumes "\<bar>n\<bar> < 2 ^ 53" "\<bar>x\<bar> \<le> 2 ^ 31"
  shows "py_int_of_product n x = Inr (truncate_rat (fl (of_int n * x)))"
proof -
  have f: "fl (of_int n) = of_int n" using assms(1) by (rule fl_of_int)
  have n: "\<bar>of_int n :: rat\<bar> \<le> 2 ^ 53"
    using assms(1) by (metis less_imp_le of_int_abs of_int_le_iff of_int_numeral of_int_power)
  then have o1: "\<not> float_overflow (of_int n)"
    using not_float_overflow[of "of_int n" 53] by simp
  have "\<bar>of_int n * x\<bar> \<le> 2 ^ 53 * 2 ^ 31"
    unfolding abs_mult using n assms(2) by (intro mult_mono) simp_all
  then have "\<bar>of_int n * x\<bar> \<le> 2 powi 84" by simp
  then have "\<bar>fl (of_int n * x)\<bar> \<le> 2 powi 84" by (rule fl_abs_le_powi2) simp
  then have o2: "\<not> float_overflow (fl (of_int n * x))"
    by (rule not_float_overflow) simp
  show ?thesis using o1 o2 by (simp add: py_int_of_product_def Let_def f)
qed

subsection \<open>One axis of the preview\<close>

lemma truncate_rat_0 [simp]: "truncate_rat 0 = 0"
  by (simp add: truncate_rat_def)

lemma canvas_dims_bounds:
  assumes "canvas_dims (w0, h0) = (cw, ch)" "w0 < 2 ^ 31" "h0 < 2 ^ 31"
  shows "2 \<le> cw" "cw < 2 ^ 31" "2 \<le> ch" "ch < 2 ^ 31"
  using assms by (auto simp add: canvas_dims_def Let_def split: if_splits)

lemma of_int_quotient_abs_le:
  assumes "0 < n"
  shows "\<bar>of_int a / of_int n :: rat\<bar> \<le> \<bar>of_int a\<bar>"
proof -
  have "(1::rat) \<le> of_int n" using assms by simp
  then have "\<bar>of_int a :: rat\<bar> * 1 \<le> \<bar>of_int a\<bar> * of_int n"
    by (intro mult_left_mono) simp_all
  then show ?thesis using assms by (simp add: divide_le_eq)
qed

lemma fit_factor_lower:
  assumes "0 < n" "- 18 \<le> a"
  shows "- 18 \<le> fl (of_int a / of_int n)"
proof -
  have "- 18 \<le> (of_int a / of_int n :: rat)"
  proof (cases "0 \<le> a")
    case True
    then have "(0::rat) \<le> of_int a / of_int n" using assms(1) by simp
    then show ?thesis by linarith
  next
    case False
    then have "\<bar>of_int a :: rat\<bar> = - of_int a" by simp
    moreover have "- (of_int a :: rat) \<le> 18"
      using assms(2) by (metis minus_le_iff of_int_le_iff of_int_minus of_int_numeral)
    ultimately show ?thesis using of_int_quotient_abs_le[OF assms(1), of a] by linarith
  qed
  then have "fl (- 18) \<le> fl (of_int a / of_int n)" by (rule fl_mono)
  moreover have "fl (- 18) = - 18" using fl_of_int[of "- 18"] by simp
  ultimately show ?thesis by simp
qed

lemma scaled_dim_eq:
  assumes "0 < n" "n < 2 ^ 31" "- 18 \<le> s" "s \<le> 1"
  shows "py_int_of_product n s = Inr (truncate_rat (fl (of_int n * s)))"
proof -
  have "\<bar>s\<bar> \<le> 2 ^ 31" using assms(3,4) by (simp add: abs_le_iff)
  moreover have "\<bar>n\<bar> < 2 ^ 53" using assms(1,2) by simp
  ultimately show ?thesis by (rule py_int_of_product_eq[rotated])
qed

lemma scaled_dim_le:
  assumes "0 < n" "n < 2 ^ 31" "s \<le> 1"
  shows "truncate_rat (fl (of_int n * s)) \<le> n"
proof -
  have "of_int n * s \<le> of_int n * 1" using assms(1,3) by (intro mult_left_mono) simp_all
  then have "fl (of_int n * s) \<le> fl (of_int n)" by (intro fl_mono) simp
  also have "fl (of_int n) = of_int n" using assms(1,2) by (intro fl_of_int) simp
  finally have "truncate_rat (fl (of_int n * s)) \<le> truncate_rat (of_int n)"
    by (rule truncate_rat_mono)
  then show ?thesis by simp
qed

lemma scaled_dim_near:
  assumes "0 < n" "n < 2 ^ 31" "- 18 \<le> s" "s \<le> 1"
  shows "\<bar>of_int (truncate_rat (fl (of_int n * s))) - of_int n * s\<bar> < 1"
proof -
  let ?y = "of_int n * s :: rat"
  have nr: "(0::rat) < of_int n" "(of_int n :: rat) \<le> 2 ^ 31"
    using assms(1,2) by (simp_all add: of_int_le_numeral_power_cancel_iff)
  have up: "?y \<le> 2 ^ 31"
  proof -
    have "?y \<le> of_int n * 1" using nr(1) assms(4) by (intro mult_left_mono) simp_all
    then show ?thesis using nr(2) by simp
  qed
  have lo: "- (18 * 2 ^ 31) \<le> ?y"
  proof -
    have "of_int n * (- s) \<le> 2 ^ 31 * 18"
    proof (cases "0 \<le> - s")
      case True
      then show ?thesis using nr assms(3) by (intro mult_mono) simp_all
    next
      case False
      then have "of_int n * (- s) \<le> 0" using nr by (simp add: mult_le_0_iff)
      then show ?thesis by (rule order_trans) simp
    qed
    then show ?thesis by simp
  qed
  have fb: "\<bar>\<lfloor>?y\<rfloor>\<bar> < 2 ^ 53" "\<bar>\<lceil>?y\<rceil>\<bar> < 2 ^ 53"
  proof -
    have p: "(2::int) ^ 53 = 9007199254740992" by simp
    have "?y \<le> 2147483648" "- 38654705664 \<le> ?y" using up lo by simp_all
    then have "\<lfloor>?y\<rfloor> \<le> 2147483648" "- 38654705664 \<le> \<lfloor>?y\<rfloor>"
      "\<lceil>?y\<rceil> \<le> 2147483648" "- 38654705664 \<le> \<lceil>?y\<rceil>"
      by linarith+
    then show "\<bar>\<lfloor>?y\<rfloor>\<bar> < 2 ^ 53" "\<bar>\<lceil>?y\<rceil>\<bar> < 2 ^ 53"
      unfolding p by linarith+
  qed
  have "fl (of_int \<lfloor>?y\<rfloor>) \<le> fl ?y" by (intro fl_mono) simp
  then have "of_int \<lfloor>?y\<rfloor> \<le> fl ?y" by (simp add: fl_of_int[OF fb(1)])
  then have "truncate_rat (of_int \<lfloor>?y\<rfloor>) \<le> truncate_rat (fl ?y)" by (rule truncate_rat_mono)
  then have l: "\<lfloor>?y\<rfloor> \<le> truncate_rat (fl ?y)" by simp
  have "fl ?y \<le> fl (of_int \<lceil>?y\<rceil>)" by (intro fl_mono) simp
  then have "fl ?y \<le> of_int \<lceil>?y\<rceil>" by (simp add: fl_of_int[OF fb(2)])
  then have "truncate_rat (fl ?y) \<le> truncate_rat (of_int \<lceil>?y\<rceil>)" by (rule truncate_rat_mono)
  then have u: "truncate_rat (fl ?y) \<le> \<lceil>?y\<rceil>" by simp
  have "?y - 1 < of_int \<lfloor>?y\<rfloor>" by linarith
  also have "(of_int \<lfloor>?y\<rfloor> :: rat) \<le> of_int (truncate_rat (fl ?y))" using l by (simp only: of_int_le_iff)
  finally have 1: "?y - 1 < of_int (truncate_rat (fl ?y))" .
  have "(of_int (truncate_rat (fl ?y)) :: rat) \<le> of_int \<lceil>?y\<rceil>" using u by (simp only: of_int_le_iff)
  also have "of_int \<lceil>?y\<rceil> < ?y + 1" by linarith
  finally have 2: "of_int (truncate_rat (fl ?y)) < ?y + 1" .
  show ?thesis using 1 2 by (simp add: abs_less_iff)
qed

lemma fit_factor_upper:
  assumes "0 < n" "n < 2 ^ 31" "0 < a" "a < 2 ^ 31"
  shows "of_int n * fl (of_int a / of_int n) \<le> of_int a + 1"
proof -
  let ?q = "of_int a / of_int n :: rat"
  have nr: "(0::rat) < of_int n" using assms(1) by simp
  have a1: "(1::rat) \<le> of_int a" using assms(3) by simp
  have a53: "(of_int a :: rat) \<le> 2 ^ 53"
  proof -
    have "a \<le> 2 ^ 53" using assms(4) by simp
    then show ?thesis by (simp add: of_int_le_numeral_power_cancel_iff)
  qed
  have n31: "(of_int n :: rat) \<le> 2 ^ 31"
  proof -
    have "n \<le> 2 ^ 31" using assms(2) by simp
    then show ?thesis by (simp add: of_int_le_numeral_power_cancel_iff)
  qed
  have q0: "0 < ?q" using assms(1,3) by simp
  have "(1::rat) * 2 ^ 31 \<le> of_int a * 2 ^ 31" using a1 by (rule mult_right_mono) simp
  then have "(of_int n :: rat) \<le> of_int a * 2 ^ 31" using n31 by simp
  then have "1 / 2 ^ 31 \<le> ?q"
    using nr by (simp add: pos_le_divide_eq pos_divide_le_eq mult.commute)
  moreover have p31: "(2::rat) powi (- 31) = 1 / 2 ^ 31" by (simp add: power_int_minus_divide)
  ultimately have "2 powi (- 31) \<le> ?q" by (simp only: p31)
  moreover have "(2::rat) powi (- 1022) \<le> 2 powi (- 31)" by (rule powi2_mono) simp
  ultimately have qn: "2 powi (- 1022) \<le> ?q" by (rule order_trans[rotated])
  have "fl ?q \<le> ?q * (1 + 2 powi (- 53))" using q0 qn by (rule fl_rel_upper)
  then have "of_int n * fl ?q \<le> of_int n * (?q * (1 + 2 powi (- 53)))"
    using nr by (intro mult_left_mono) simp_all
  also have "\<dots> = (of_int n * ?q) * (1 + 2 powi (- 53))" by (simp only: mult.assoc)
  also have "\<dots> = of_int a * (1 + 2 powi (- 53))" using nr by simp
  also have "\<dots> = of_int a + of_int a * (1 / 2 ^ 53)"
    by (simp only: distrib_left mult_1_right power_int_minus_divide power_int_numeral)
  also have "\<dots> \<le> of_int a + 1" using a53 by (simp add: pos_divide_le_eq)
  finally show ?thesis .
qed

lemma scaled_dim_fit:
  assumes "0 < n" "n < 2 ^ 31" "a < 2 ^ 31" "s \<le> fl (of_int a / of_int n)"
  shows "truncate_rat (fl (of_int n * s)) \<le> max 0 (a + 1)"
proof -
  have nr: "(0::rat) < of_int n" using assms(1) by simp
  have st: "of_int n * s \<le> of_int n * fl (of_int a / of_int n)"
    using nr assms(4) by (intro mult_left_mono) simp_all
  show ?thesis
  proof (cases "0 < a")
    case False
    then have "(of_int a / of_int n :: rat) \<le> 0" using nr by (simp add: divide_le_0_iff)
    then have "fl (of_int a / of_int n) \<le> fl 0" by (rule fl_mono)
    then have "of_int n * fl (of_int a / of_int n) \<le> 0" using nr by (simp add: mult_le_0_iff)
    then have "of_int n * s \<le> 0" using st by linarith
    then have "fl (of_int n * s) \<le> fl 0" by (rule fl_mono)
    then have "truncate_rat (fl (of_int n * s)) \<le> truncate_rat 0"
      by (intro truncate_rat_mono) simp
    then show ?thesis by simp
  next
    case True
    have "of_int n * fl (of_int a / of_int n) \<le> (of_int a + 1 :: rat)"
      using assms(1,2) True assms(3) by (rule fit_factor_upper)
    then have "of_int n * s \<le> of_int (a + 1)" using st by simp
    then have "fl (of_int n * s) \<le> fl (of_int (a + 1))" by (rule fl_mono)
    also have "\<dots> = of_int (a + 1)" using True assms(3) by (intro fl_of_int) simp
    finally have "truncate_rat (fl (of_int n * s)) \<le> truncate_rat (of_int (a + 1))"
      by (rule truncate_rat_mono)
    then have "truncate_rat (fl (of_int n * s)) \<le> a + 1"
      by (simp only: truncate_rat_of_int)
    then show ?thesis by simp
  qed
qed

subsection \<open>The scale factor and the preview size\<close>

lemma and_then_Inr [simp]: "and_then (Inr x) f = f x"
  by (simp add: and_then_def)

lemma and_then_Inl [simp]: "and_then (Inl e) f = Inl e"
  by (simp add: and_then_def)

lemma preview_scale_eq:
  assumes "0 < iw" "0 < ih" "w0 < 2 ^ 31" "h0 < 2 ^ 31" "canvas_dims (w0, h0) = (cw, ch)"
  shows "py_truediv (cw - 20) iw = Inr (fl (of_int (cw - 20) / of_int iw))"
    and "py_truediv (ch - 20) ih = Inr (fl (of_int (ch - 20) / of_int ih))"
    and "preview_scale (w0, h0) (iw, ih) =
           Inr (min (min (fl (of_int (cw - 20) / of_int iw)) (fl (of_int (ch - 20) / of_int ih))) 1)"
proof -
  note b = canvas_dims_bounds[OF assms(5,3,4)]
  have "\<bar>cw - 20\<bar> \<le> 2 ^ 31" "\<bar>ch - 20\<bar> \<le> 2 ^ 31" using b by simp_all
  then show w: "py_truediv (cw - 20) iw = Inr (fl (of_int (cw - 20) / of_int iw))"
    and h: "py_truediv (ch - 20) ih = Inr (fl (of_int (ch - 20) / of_int ih))"
    using assms(1,2) by (simp_all add: py_truediv_eq)
  show "preview_scale (w0, h0) (iw, ih) =
           Inr (min (min (fl (of_int (cw - 20) / of_int iw)) (fl (of_int (ch - 20) / of_int ih))) 1)"
    by (simp add: preview_scale_def assms(5) w h del: of_int_diff)
qed

lemma preview_scale_range:
  assumes "0 < iw" "0 < ih" "w0 < 2 ^ 31" "h0 < 2 ^ 31" "preview_scale (w0, h0) (iw, ih) = Inr s"
  shows "- 18 \<le> s" "s \<le> 1"
proof -
  obtain cw ch where cd: "canvas_dims (w0, h0) = (cw, ch)" by (cases "canvas_dims (w0, h0)")
  note b = canvas_dims_bounds[OF cd assms(3,4)]
  have s: "s = min (min (fl (of_int (cw - 20) / of_int iw)) (fl (of_int (ch - 20) / of_int ih))) 1"
    using preview_scale_eq(3)[OF assms(1-4) cd] assms(5) by simp
  have "- 18 \<le> fl (of_int (cw - 20) / of_int iw)" using assms(1) b by (intro fit_factor_lower) simp_all
  moreover have "- 18 \<le> fl (of_int (ch - 20) / of_int ih)" using assms(2) b by (intro fit_factor_lower) simp_all
  ultimately show "- 18 \<le> s" unfolding s by simp
  show "s \<le> 1" unfolding s by simp
qed

lemma preview_size_eq:
  assumes "0 < iw" "iw < 2 ^ 31" "0 < ih" "ih < 2 ^ 31" "w0 < 2 ^ 31" "h0 < 2 ^ 31"
    and "preview_scale (w0, h0) (iw, ih) = Inr s"
  shows "preview_size (w0, h0) (iw, ih) =
           Inr (truncate_rat (fl (of_int iw * s)), truncate_rat (fl (of_int ih * s)))"
proof -
  note r = preview_scale_range[OF assms(1,3,5,6,7)]
  show ?thesis
    by (simp add: preview_size_def assms(7) scaled_dim_eq[OF assms(1,2) r] scaled_dim_eq[OF assms(3,4) r])
qed

lemma preview_size_one:
  assumes "0 < iw" "iw < 2 ^ 31" "0 < ih" "ih < 2 ^ 31" "w0 < 2 ^ 31" "h0 < 2 ^ 31"
    and "canvas_dims (w0, h0) = (cw, ch)" "iw \<le> cw - 20" "ih \<le> ch - 20"
  shows "preview_scale (w0, h0) (iw, ih) = Inr 1" "preview_size (w0, h0) (iw, ih) = Inr (iw, ih)"
proof -
  have one: "1 \<le> fl (of_int a / of_int n)" if "0 < n" "n \<le> a" for a n :: int
  proof -
    have "(1::rat) \<le> of_int a / of_int n" using that by (simp add: pos_le_divide_eq)
    then have "fl 1 \<le> fl (of_int a / of_int n)" by (rule fl_mono)
    moreover have "fl 1 = 1" using fl_of_int[of 1] by simp
    ultimately show ?thesis by simp
  qed
  show s: "preview_scale (w0, h0) (iw, ih) = Inr 1"
    using preview_scale_eq(3)[OF assms(1,3,5,6,7)] one[OF assms(1,8)] one[OF assms(3,9)]
    by (simp add: min_def)
  have "fl (of_int iw) = of_int iw" "fl (of_int ih) = of_int ih"
    using assms(1-4) by (simp_all add: fl_of_int)
  then show "preview_size (w0, h0) (iw, ih) = Inr (iw, ih)"
    using preview_size_eq[OF assms(1-6) s] by simp
qed

section \<open>The preview renderer\<close>

lemma display_image_on_canvas_eq:
  assumes "preview_size (canvas_winfo s) (img_size img) = Inr new_size"
    and "canvas_dims (canvas_winfo s) = (cw, ch)"
  shows "display_image_on_canvas lib img s =
           and_then (Image_resize lib img new_size LANCZOS) (\<lambda>display_img.
           and_then (ImageTk_PhotoImage lib display_img) (\<lambda>photo.
           Inr (s\<lparr>display_image := Some photo,
                   canvas_items := [(cw div 2, ch div 2, photo)]\<rparr>)))"
  by (simp add: display_image_on_canvas_def assms)






section \<open>The controls\<close>

text \<open>What each callback leaves alone.\<close>

lemma display_image_on_canvas_frame:
  assumes "display_image_on_canvas lib img s = Inr s'"
  shows "original_image s' = original_image s" "processed_image s' = processed_image s"
    "upload_btn s' = upload_btn s" "save_btn s' = save_btn s" "reset_btn s' = reset_btn s"
    "filter_buttons s' = filter_buttons s" "canvas_winfo s' = canvas_winfo s"
    "status_label s' = status_label s" "messageboxes s' = messageboxes s"
  using assms
  by (auto simp add: display_image_on_canvas_def and_then_def split: sum.splits prod.splits)

lemma filter_try_controls:
  "upload_btn (fst (filter_try lib r st s)) = upload_btn s"
  "reset_btn (fst (filter_try lib r st s)) = reset_btn s"
  "save_btn (fst (filter_try lib r st s)) = save_btn s"
  "filter_buttons (fst (filter_try lib r st s)) = filter_buttons s"
  by (auto simp add: filter_try_def status_config_def Let_def
      dest: display_image_on_canvas_frame split: sum.splits)

lemma filter_except_controls:
  "upload_btn (filter_except r) = upload_btn (fst r)"
  "reset_btn (filter_except r) = reset_btn (fst r)"
  "save_btn (filter_except r) = save_btn (fst r)"
  "filter_buttons (filter_except r) = filter_buttons (fst r)"
  by (auto simp add: filter_except_def showerror_def split: prod.splits option.splits)

lemma apply_filter_controls:
  "upload_btn (apply_filter lib k s) = upload_btn s"
  "reset_btn (apply_filter lib k s) = reset_btn s"
  "save_btn (apply_filter lib k s) = save_btn s"
  "filter_buttons (apply_filter lib k s) = filter_buttons s"
  by (cases k; simp add: apply_black_white_def apply_blur_def apply_sharpen_def
      apply_cartoon_def apply_edge_detection_def filter_except_controls filter_try_controls
      split: option.splits)+

lemma save_image_controls:
  "upload_btn (save_image lib p s) = upload_btn s"
  "reset_btn (save_image lib p s) = reset_btn s"
  "save_btn (save_image lib p s) = save_btn s"
  "filter_buttons (save_image lib p s) = filter_buttons s"
  by (auto simp add: save_image_def showwarning_def showerror_def showinfo_def status_config_def
      split: option.splits sum.splits)

lemma reset_image_controls:
  "upload_btn (fst (reset_image lib s)) = upload_btn s"
  "reset_btn (fst (reset_image lib s)) = reset_btn s"
  "save_btn (fst (reset_image lib s)) = save_btn s"
  "filter_buttons (fst (reset_image lib s)) = filter_buttons s"
  by (auto simp add: reset_image_def status_config_def Let_def
      dest: display_image_on_canvas_frame split: option.splits sum.splits)

lemma upload_image_controls:
  "upload_btn (upload_image lib p s) = upload_btn s"
  "reset_btn (upload_image lib p s) = reset_btn s"
  "save_btn (upload_image lib p s) =
     (if loads lib (Upload p) then config_state NORMAL (save_btn s) else save_btn s)"
  "filter_buttons (upload_image lib p s) =
     (if loads lib (Upload p) then map (config_state NORMAL) (filter_buttons s)
      else filter_buttons s)"
  by (auto simp add: upload_image_def upload_try_def loads_def showerror_def status_config_def
      Let_def dest: display_image_on_canvas_frame split: option.splits sum.splits)

lemma step_controls:
  "upload_btn (step lib s ev) = upload_btn s"
  "reset_btn (step lib s ev) = reset_btn s"
  "save_btn (step lib s ev) = (if loads lib ev then config_state NORMAL (save_btn s) else save_btn s)"
  "filter_buttons (step lib s ev) =
     (if loads lib ev then map (config_state NORMAL) (filter_buttons s) else filter_buttons s)"
  by (cases ev; simp add: upload_image_controls apply_filter_controls save_image_controls
      reset_image_controls; simp add: loads_def)+

lemma run_Cons: "run lib s (ev # evs) = run lib (step lib s ev) evs"
  by (simp add: run_def)

lemma run_Nil: "run lib s [] = s"
  by (simp add: run_def)

lemma run_controls:
  "upload_btn (run lib s evs) = upload_btn s"
  "reset_btn (run lib s evs) = reset_btn s"
  "btn_state (save_btn (run lib s evs)) =
     (if list_ex (loads lib) evs then NORMAL else btn_state (save_btn s))"
  "map btn_state (filter_buttons (run lib s evs)) =
     (if list_ex (loads lib) evs then replicate (length (filter_buttons s)) NORMAL
      else map btn_state (filter_buttons s))"
proof (induction evs arbitrary: s)
  case Nil
  {
    case 1 show ?case by (simp add: run_Nil)
  next
    case 2 show ?case by (simp add: run_Nil)
  next
    case 3 show ?case by (simp add: run_Nil)
  next
    case 4 show ?case by (simp add: run_Nil)
  }
next
  case (Cons ev evs)
  have m: "map (btn_state \<circ> config_state NORMAL) bs = replicate (length bs) NORMAL" for bs
    by (induction bs) (simp_all add: config_state_def)
  {
    case 1 show ?case by (simp add: run_Cons Cons.IH(1) step_controls)
  next
    case 2 show ?case by (simp add: run_Cons Cons.IH(2) step_controls)
  next
    case 3 show ?case by (simp add: run_Cons Cons.IH(3) step_controls config_state_def)
  next
    case 4 show ?case by (simp add: run_Cons Cons.IH(4) step_controls m)
  }
qed

text \<open>
  Claim C9, as amended. In every session, whatever the user does and whatever the library
  answers, the upload and the reset buttons are enabled; the save button and the five
  filter buttons are disabled until the first upload in which a file is chosen, opened
  and copied, and enabled from then on.
\<close>

theorem controls_enabled_by_load:
  "btn_state (upload_btn (run lib create_widgets evs)) = NORMAL \<and>
   btn_state (reset_btn (run lib create_widgets evs)) = NORMAL \<and>
   btn_state (save_btn (run lib create_widgets evs)) =
     (if list_ex (loads lib) evs then NORMAL else DISABLED) \<and>
   map btn_state (filter_buttons (run lib create_widgets evs)) =
     replicate 5 (if list_ex (loads lib) evs then NORMAL else DISABLED)"
  by (simp add: run_controls) (simp add: create_widgets_def Button_def filter_names_def eval_nat_numeral)

text \<open>
  As stated (in the empty state only the upload control is enabled), the claim fails:
  the reset button is created without \<^verbatim>\<open>state=tk.DISABLED\<close>.
\<close>

theorem reset_enabled_when_empty_counterexample:
  "original_image create_widgets = None \<and> btn_state (reset_btn create_widgets) = NORMAL"
  by (simp add: create_widgets_def Button_def)

section \<open>The filter handlers\<close>

lemma filter_try_images:
  "original_image (fst (filter_try lib r st s)) = original_image s"
  "processed_image (fst (filter_try lib r st s)) =
     (case r of Inr img \<Rightarrow> Some img | Inl e \<Rightarrow> processed_image s)"
  by (auto simp add: filter_try_def status_config_def Let_def
      dest: display_image_on_canvas_frame split: sum.splits)

lemma filter_except_images:
  "original_image (filter_except r) = original_image (fst r)"
  "processed_image (filter_except r) = processed_image (fst r)"
  by (auto simp add: filter_except_def showerror_def split: prod.splits option.splits)

lemma apply_filter_original: "original_image (apply_filter lib k s) = original_image s"
  by (cases k; simp add: apply_black_white_def apply_blur_def apply_sharpen_def
      apply_cartoon_def apply_edge_detection_def filter_except_images filter_try_images
      split: option.splits)

lemma apply_filter_processed:
  assumes "original_image s = Some original"
  shows "processed_image (apply_filter lib k s) =
           (case filter_image lib k original of Inr r \<Rightarrow> Some r | Inl e \<Rightarrow> processed_image s)"
  using assms
  by (cases k; simp add: apply_black_white_def apply_blur_def apply_sharpen_def
      apply_cartoon_def apply_edge_detection_def filter_except_images filter_try_images)

lemma derived_filter: "filter_image lib k original = Inr r \<Longrightarrow> derived lib original r"
  by (cases k) (auto simp add: derived_def filter_kinds_def)

lemma upload_image_images:
  assumes "file_path \<noteq> []" "Image_open lib file_path = Inr img"
  shows "original_image (upload_image lib file_path s) = Some img"
    and "processed_image (upload_image lib file_path s) =
           (case Image_copy lib img of Inr c \<Rightarrow> Some c | Inl e \<Rightarrow> processed_image s)"
    and "canvas_winfo (upload_image lib file_path s) = canvas_winfo s"
  using assms
  by (auto simp add: upload_image_def upload_try_def showerror_def status_config_def Let_def
      dest: display_image_on_canvas_frame split: sum.splits)

lemma apply_filter_canvas_winfo: "canvas_winfo (apply_filter lib k s) = canvas_winfo s"
  by (cases k; auto simp add: apply_black_white_def apply_blur_def apply_sharpen_def
      apply_cartoon_def apply_edge_detection_def filter_except_def filter_try_def showerror_def
      status_config_def Let_def dest: display_image_on_canvas_frame
      split: option.splits sum.splits)

subsection \<open>The demo library on the demo files\<close>

lemma demo_pil_simps [simp]:
  "Image_open demo_pil = demo_open"
  "Image_copy demo_pil = demo_load"
  "Image_convert demo_pil = demo_convert"
  "Image_filter demo_pil = demo_filter"
  "Image_quantize demo_pil = demo_quantize"
  "Image_resize demo_pil = demo_resize"
  "ImageEnhance_Color demo_pil = demo_enhance"
  "ImageTk_PhotoImage demo_pil = (\<lambda>img. Inr (PhotoImage img))"
  by (simp_all add: demo_pil_def)

lemma demo_load_photo [simp]: "demo_load photo = Inr photo"
  by (simp add: demo_load_def photo_def)

lemma demo_load_banner [simp]: "demo_load banner = Inr banner"
  by (simp add: demo_load_def banner_def)

lemma demo_load_truncated [simp]: "demo_load truncated = Inl (LibraryError ''image file is truncated'')"
  by (simp add: demo_load_def truncated_def)

lemma black_white_photo:
  "filter_image demo_pil Black_White photo =
     Inr \<lparr>img_mode = ''RGB'', img_size = (2, 2),
          img_data = [[76, 76, 76], [149, 149, 149], [29, 29, 29], [100, 100, 100]]\<rparr>"
  by (simp add: black_white_image_def demo_convert_def demo_load_def photo_def luminance_def to_rgb_def)

lemma apply_filter_raises:
  assumes "original_image s = Some original"
  shows "filter_image lib k original = Inl e \<Longrightarrow>
           apply_filter lib k s = showerror ''Error'' (''Failed to apply filter: '' @ str_exn e) s"
    and "filter_image lib k original = Inr r \<Longrightarrow>
         display_image_on_canvas lib r (s\<lparr>processed_image := Some r\<rparr>) = Inl e \<Longrightarrow>
           apply_filter lib k s =
             showerror ''Error'' (''Failed to apply filter: '' @ str_exn e)
               (s\<lparr>processed_image := Some r\<rparr>)"
  using assms
  by (cases k; simp add: apply_black_white_def apply_blur_def apply_sharpen_def
      apply_cartoon_def apply_edge_detection_def filter_except_def filter_try_def)+

text \<open>
  Claim C2, as amended. With an original image present, when the pipeline of a filter
  handler raises, the handler leaves the processed image, and everything else, as it was
  and shows an error dialog with the exception's text. When the pipeline returns and
  rendering the preview raises, the handler shows the same kind of dialog, and the
  processed image is by then the new one.
\<close>

theorem filter_failure_reported:
  assumes "original_image s = Some original"
  shows "(filter_image lib k original = Inl e \<longrightarrow>
            apply_filter lib k s =
              showerror ''Error'' (''Failed to apply filter: '' @ str_exn e) s) \<and>
         (filter_image lib k original = Inr r \<longrightarrow>
          display_image_on_canvas lib r (s\<lparr>processed_image := Some r\<rparr>) = Inl e \<longrightarrow>
            apply_filter lib k s =
              showerror ''Error'' (''Failed to apply filter: '' @ str_exn e)
                (s\<lparr>processed_image := Some r\<rparr>))"
  using apply_filter_raises[OF assms] by blast

theorem filter_failure_reported_witness:
  "original_image (upload_image demo_pil ''truncated.png'' create_widgets) = Some truncated \<and>
   filter_image demo_pil Blur truncated = Inl (LibraryError ''image file is truncated'') \<and>
   apply_filter demo_pil Blur (upload_image demo_pil ''truncated.png'' create_widgets) =
     showerror ''Error'' ''Failed to apply filter: image file is truncated''
       (upload_image demo_pil ''truncated.png'' create_widgets)"
proof -
  let ?s = "upload_image demo_pil ''truncated.png'' create_widgets"
  have o: "original_image ?s = Some truncated"
    by (simp add: upload_image_images(1) demo_open_def)
  have f: "filter_image demo_pil Blur truncated = Inl (LibraryError ''image file is truncated'')"
    by (simp add: blur_image_def demo_filter_def)
  from filter_failure_reported[OF o, of demo_pil Blur "LibraryError ''image file is truncated''"] f
  have "apply_filter demo_pil Blur ?s =
     showerror ''Error'' (''Failed to apply filter: '' @ str_exn (LibraryError ''image file is truncated'')) ?s"
    by blast
  then show ?thesis using o f by simp
qed

lemma truncate_rat_half: "truncate_rat (1 / 2) = 0"
proof -
  have "\<lfloor>1 / 2 :: rat\<rfloor> = 0" by (rule floor_unique) simp_all
  then show ?thesis by (simp add: truncate_rat_def)
qed

lemma fl_half: "fl (1 / 2) = 1 / 2"
  using fl_powi2[of "- 1"] by (simp add: power_int_minus_divide)

lemma fl_numeral: "(numeral k :: int) < 2 ^ 53 \<Longrightarrow> fl (numeral k) = numeral k"
  using fl_of_int[of "numeral k"] by simp

lemma preview_size_banner: "preview_size (800, 500) (1560, 1) = Inr (780, 0)"
proof -
  have c: "canvas_dims (800, 500) = (800, 500)" by (simp add: canvas_dims_def)
  have h: "(0::int) < 1560" "(1560::int) < 2 ^ 31" "(0::int) < 1" "(1::int) < 2 ^ 31"
    "(800::int) < 2 ^ 31" "(500::int) < 2 ^ 31" by simp_all
  have "preview_scale (800, 500) (1560, 1) =
      Inr (min (min (fl (of_int (800 - 20) / of_int 1560)) (fl (of_int (500 - 20) / of_int 1))) 1)"
    by (rule preview_scale_eq(3)[OF h(1,3,5,6) c])
  then have s: "preview_scale (800, 500) (1560, 1) = Inr (1 / 2)"
    by (simp add: fl_half fl_numeral)
  have "preview_size (800, 500) (1560, 1) =
      Inr (truncate_rat (fl (of_int 1560 * (1 / 2))), truncate_rat (fl (of_int 1 * (1 / 2))))"
    by (rule preview_size_eq[OF h s])
  then show ?thesis using truncate_rat_of_int[of 780] by (simp add: fl_half fl_numeral truncate_rat_half)
qed

lemma blur_banner:
  "filter_image demo_pil Blur banner =
     Inr \<lparr>img_mode = ''RGB'', img_size = (1560, 1), img_data = replicate 1560 [164, 114, 89]\<rparr>"
  by (simp add: blur_image_def demo_filter_def) (simp add: banner_def)

text \<open>
  As stated (whatever raises inside the \<^verbatim>\<open>try\<close> block, the processed image keeps its
  value), the claim fails. The canvas is 800 by 500 and a 1560 by 1 image is loaded; its
  preview is 780 by 0, which \<^verbatim>\<open>resize\<close> refuses. The blur handler has assigned the
  blurred image before it renders, so the error dialog appears and the processed image
  has changed.
\<close>

theorem render_failure_keeps_new_image_counterexample:
  "processed_image (upload_image demo_pil ''banner.png'' (create_widgets\<lparr>canvas_winfo := (800, 500)\<rparr>)) = Some banner \<and>
   processed_image (apply_blur demo_pil (upload_image demo_pil ''banner.png'' (create_widgets\<lparr>canvas_winfo := (800, 500)\<rparr>))) =
     Some \<lparr>img_mode = ''RGB'', img_size = (1560, 1), img_data = replicate 1560 [164, 114, 89]\<rparr> \<and>
   \<lparr>img_mode = ''RGB'', img_size = (1560, 1), img_data = replicate 1560 [164, 114, 89]\<rparr> \<noteq> banner \<and>
   messageboxes (apply_blur demo_pil (upload_image demo_pil ''banner.png'' (create_widgets\<lparr>canvas_winfo := (800, 500)\<rparr>))) =
     messageboxes (upload_image demo_pil ''banner.png'' (create_widgets\<lparr>canvas_winfo := (800, 500)\<rparr>)) @
       [Showerror ''Error'' ''Failed to apply filter: height and width must be > 0'']"
proof -
  let ?s = "upload_image demo_pil ''banner.png'' (create_widgets\<lparr>canvas_winfo := (800, 500)\<rparr>)"
  let ?b = "\<lparr>img_mode = ''RGB'', img_size = (1560, 1), img_data = replicate 1560 [164, 114, 89 :: nat]\<rparr>"
  have op: "''banner.png'' \<noteq> []" "Image_open demo_pil ''banner.png'' = Inr banner"
    by (simp_all add: demo_open_def)
  have o: "original_image ?s = Some banner" by (rule upload_image_images(1)[OF op])
  have p: "processed_image ?s = Some banner" using upload_image_images(2)[OF op] by simp
  have w: "canvas_winfo ?s = (800, 500)"
    using upload_image_images(3)[OF op] by simp
  have d: "display_image_on_canvas demo_pil ?b (?s\<lparr>processed_image := Some ?b\<rparr>) =
      Inl (LibraryError ''height and width must be > 0'')"
    by (simp add: display_image_on_canvas_def w preview_size_banner demo_resize_def)
  have a: "apply_filter demo_pil Blur ?s =
      showerror ''Error'' (''Failed to apply filter: '' @ str_exn (LibraryError ''height and width must be > 0''))
        (?s\<lparr>processed_image := Some ?b\<rparr>)"
    by (rule apply_filter_raises(2)[OF o blur_banner d])
  have n: "?b \<noteq> banner" by (simp add: banner_def)
  show ?thesis using p a n by (simp add: showerror_def)
qed

section \<open>Loading an image\<close>

lemma upload_image_raises:
  assumes "file_path \<noteq> []"
  shows "Image_open lib file_path = Inl e \<Longrightarrow>
           upload_image lib file_path s =
             showerror ''Error'' (''Failed to load image: '' @ str_exn e) s"
    and "Image_open lib file_path = Inr img \<Longrightarrow> Image_copy lib img = Inl e \<Longrightarrow>
           upload_image lib file_path s =
             showerror ''Error'' (''Failed to load image: '' @ str_exn e)
               (s\<lparr>original_image := Some img\<rparr>)"
  using assms by (simp_all add: upload_image_def upload_try_def)

lemma upload_try_messageboxes: "messageboxes (fst (upload_try lib file_path s)) = messageboxes s"
  by (auto simp add: upload_try_def status_config_def Let_def
      dest: display_image_on_canvas_frame split: sum.splits)




section \<open>The cartoon pipeline\<close>

text \<open>The float literal \<^verbatim>\<open>1.2\<close>, evaluated.\<close>

lemma round_half_even_eqI:
  assumes "of_int n \<le> x" "x < of_int n + 1 / 2"
  shows "round_half_even x = n"
proof -
  have "\<lfloor>x\<rfloor> = n" using assms by (intro floor_unique) linarith+
  then show ?thesis using assms by (simp add: round_half_even_def Let_def)
qed

lemma saturation_factor_value: "saturation_factor = 5404319552844595 / 4503599627370496"
proof -
  have x: "(12 / 10 :: rat) = 6 / 5" by simp
  have l: "floor_log2 (6 / 5) = 0" by (rule floor_log2_unique) simp_all
  have e: "float_exp (6 / 5) = - 52" by (simp add: float_exp_def l)
  have p: "(2::rat) powi (- 52) = 1 / 4503599627370496" by (simp add: power_int_minus_divide)
  have r: "round_half_even (6 / 5 / (1 / 4503599627370496)) = 5404319552844595"
    by (rule round_half_even_eqI) simp_all
  show ?thesis by (simp only: saturation_factor_def x fl_def Let_def e p r)
qed

lemma cartoon_image_pipeline:
  assumes "Image_copy lib original = Inr original"
    and "img_mode original = ''RGB'' \<longrightarrow> Image_convert lib original ''RGB'' = Inr original"
  shows "cartoon_image lib original = cartoon_pipeline lib original"
  using assms
  by (cases "img_mode original = ''RGB''")
    (simp_all add: cartoon_image_def cartoon_pipeline_def saturation_factor_value)

text \<open>
  Claim C4. Where copying the original image gives the same image, and converting an
  image that is already RGB to RGB gives the same image, the cartoon handler's pipeline
  (copy, convert unless already RGB, quantize to 64 colours, convert to RGB, enhance the
  edges, enhance the colour by the float literal \<^verbatim>\<open>1.2\<close>) is the pipeline of the
  specification, in its order and with its factor: the literal is the float
  \<open>5404319552844595 / 2 ^ 52\<close>, within \<open>1 / 2 ^ 53\<close> of \<open>12 / 10\<close>. The result of the
  pipeline is the processed image.
\<close>

theorem cartoon_follows_pipeline:
  assumes "original_image s = Some original"
    and "Image_copy lib original = Inr original"
    and "img_mode original = ''RGB'' \<longrightarrow> Image_convert lib original ''RGB'' = Inr original"
  shows "cartoon_image lib original = cartoon_pipeline lib original \<and>
         processed_image (apply_cartoon lib s) =
           (case cartoon_pipeline lib original of Inr r \<Rightarrow> Some r | Inl e \<Rightarrow> processed_image s) \<and>
         saturation_factor = 5404319552844595 / 4503599627370496 \<and>
         \<bar>saturation_factor - 12 / 10\<bar> \<le> 1 / 2 ^ 53"
proof -
  have "\<bar>saturation_factor - 12 / 10\<bar> \<le> 1 / 2 ^ 53"
    by (simp add: saturation_factor_value)
  then show ?thesis
    using apply_filter_processed[OF assms(1), of lib Cartoon]
      cartoon_image_pipeline[OF assms(2,3)] saturation_factor_value
    by simp
qed

lemma floor_rat_numeral: "\<lfloor>numeral a / numeral b :: rat\<rfloor> = numeral a div numeral b"
  using floor_divide_of_int_eq[of "numeral a" "numeral b", where ?'a = rat] by simp

lemma ceiling_rat_minus_numeral:
  "\<lceil>- (numeral a / numeral b) :: rat\<rceil> = - (numeral a div numeral b)"
  by (simp add: ceiling_def floor_rat_numeral)

lemma saturate_evals:
  "saturate (5404319552844595 / 4503599627370496) [255, 0, 0] = [255, 0, 0]"
  "saturate (5404319552844595 / 4503599627370496) [0, 255, 0] = [0, 255, 0]"
  "saturate (5404319552844595 / 4503599627370496) [0, 0, 255] = [0, 0, 255]"
  "saturate (5404319552844595 / 4503599627370496) [192, 192, 192] = [192, 192, 192]"
  "saturate (5404319552844595 / 4503599627370496) [192, 192, 0] = [196, 196, 0]"
  by (simp_all add: saturate_def luminance_def clip_def truncate_rat_def Let_def
      floor_rat_numeral ceiling_rat_minus_numeral)

lemma cartoon_pipeline_photo:
  "cartoon_pipeline demo_pil photo =
     Inr \<lparr>img_mode = ''RGB'', img_size = (2, 2),
          img_data = [[255, 0, 0], [0, 255, 0], [0, 0, 255], [192, 192, 192]]\<rparr>"
  by (simp add: cartoon_pipeline_def demo_convert_def demo_quantize_def demo_filter_def
      demo_enhance_def demo_load_def photo_def to_rgb_def palette_index_def palette_colour_def
      luminance_def saturate_evals)

lemma demo_load_swatch [simp]: "demo_load swatch = Inr swatch"
  by (simp add: demo_load_def swatch_def)

lemma cartoon_pipeline_swatch:
  "cartoon_pipeline demo_pil swatch =
     Inr \<lparr>img_mode = ''RGB'', img_size = (1, 1), img_data = [[196, 196, 0]]\<rparr>"
  by (simp add: cartoon_pipeline_def demo_convert_def demo_quantize_def demo_filter_def
      demo_enhance_def demo_load_def swatch_def to_rgb_def palette_index_def palette_colour_def
      luminance_def saturate_evals)

theorem cartoon_follows_pipeline_witness:
  "original_image (upload_image demo_pil ''swatch.png'' create_widgets) = Some swatch \<and>
   Image_copy demo_pil swatch = Inr swatch \<and>
   Image_convert demo_pil swatch ''RGB'' = Inr swatch \<and>
   processed_image (apply_cartoon demo_pil (upload_image demo_pil ''swatch.png'' create_widgets)) =
     Some \<lparr>img_mode = ''RGB'', img_size = (1, 1), img_data = [[196, 196, 0]]\<rparr>"
proof -
  let ?s = "upload_image demo_pil ''swatch.png'' create_widgets"
  have op: "''swatch.png'' \<noteq> []" "Image_open demo_pil ''swatch.png'' = Inr swatch"
    by (simp_all add: demo_open_def)
  have o: "original_image ?s = Some swatch" by (rule upload_image_images(1)[OF op])
  have c: "Image_copy demo_pil swatch = Inr swatch" by simp
  have v: "Image_convert demo_pil swatch ''RGB'' = Inr swatch"
    by (simp add: demo_convert_def) (simp add: swatch_def to_rgb_def)
  from cartoon_follows_pipeline[OF o c] v
  have "processed_image (apply_cartoon demo_pil ?s) =
      (case cartoon_pipeline demo_pil swatch of Inr r \<Rightarrow> Some r | Inl e \<Rightarrow> processed_image ?s)"
    by blast
  then show ?thesis using o c v by (simp only: cartoon_pipeline_swatch sum.case simp_thms)
qed

section \<open>Reset\<close>

lemma run_filters_original: "original_image (run lib s (map Filter ks)) = original_image s"
proof (induction ks arbitrary: s)
  case Nil
  show ?case by (simp add: run_Nil)
next
  case (Cons k ks)
  have "original_image (run lib s (map Filter (k # ks))) =
      original_image (run lib (apply_filter lib k s) (map Filter ks))"
    by (simp add: run_Cons)
  also have "\<dots> = original_image (apply_filter lib k s)" by (rule Cons.IH)
  also have "\<dots> = original_image s" by (rule apply_filter_original)
  finally show ?case .
qed

lemma run_filters_canvas_winfo: "canvas_winfo (run lib s (map Filter ks)) = canvas_winfo s"
proof (induction ks arbitrary: s)
  case Nil
  show ?case by (simp add: run_Nil)
next
  case (Cons k ks)
  have "canvas_winfo (run lib s (map Filter (k # ks))) =
      canvas_winfo (run lib (apply_filter lib k s) (map Filter ks))"
    by (simp add: run_Cons)
  also have "\<dots> = canvas_winfo (apply_filter lib k s)" by (rule Cons.IH)
  also have "\<dots> = canvas_winfo s" by (rule apply_filter_canvas_winfo)
  finally show ?case .
qed

lemma reset_image_eq:
  assumes "original_image s = Some original" "Image_copy lib original = Inr c"
  shows "reset_image lib s =
           (case display_image_on_canvas lib original (s\<lparr>processed_image := Some c\<rparr>) of
              Inl e \<Rightarrow> (s\<lparr>processed_image := Some c\<rparr>, Some e)
            | Inr s2 \<Rightarrow> (status_config ''Image reset to original'' ''orange'' s2, None))"
  using assms by (simp add: reset_image_def Let_def)

lemma reset_image_raises:
  assumes "original_image s = Some original" "Image_copy lib original = Inl e"
  shows "reset_image lib s = (s, Some e)"
  using assms by (simp add: reset_image_def)

lemma reset_image_images:
  assumes "original_image s = Some original" "Image_copy lib original = Inr c"
  shows "original_image (fst (reset_image lib s)) = Some original"
    and "processed_image (fst (reset_image lib s)) = Some c"
  using assms
  by (auto simp add: reset_image_eq status_config_def dest: display_image_on_canvas_frame
      split: sum.splits)

lemma reset_image_renders:
  assumes "original_image s = Some original" "Image_copy lib original = Inr c"
    and "preview_size (canvas_winfo s) (img_size original) = Inr new_size"
    and "Image_resize lib original new_size LANCZOS = Inr resized"
    and "ImageTk_PhotoImage lib resized = Inr ph"
  shows "snd (reset_image lib s) = None"
    and "display_image (fst (reset_image lib s)) = Some ph"
    and "canvas_items (fst (reset_image lib s)) =
           [(fst (canvas_dims (canvas_winfo s)) div 2, snd (canvas_dims (canvas_winfo s)) div 2,
             ph)]"
    and "status_label (fst (reset_image lib s)) =
           \<lparr>lbl_text = ''Image reset to original'', lbl_fg = ''orange''\<rparr>"
  using assms
  by (simp_all add: reset_image_eq display_image_on_canvas_def status_config_def
      split: prod.splits)




section \<open>What the processed image is derived from\<close>

lemma processed_derived_cong:
  assumes "original_image s' = original_image s" "processed_image s' = processed_image s"
  shows "processed_derived lib s' = processed_derived lib s"
  by (simp add: processed_derived_def assms cong: option.case_cong)

lemma processed_derived_copy:
  assumes "original_image s = Some original" "processed_image s = Some c"
    and "Image_copy lib original = Inr c"
  shows "processed_derived lib s"
  by (simp add: processed_derived_def assms derived_def)

lemma apply_filter_None: "original_image s = None \<Longrightarrow> apply_filter lib k s = s"
  by (cases k) (simp_all add: apply_black_white_def apply_blur_def apply_sharpen_def
      apply_cartoon_def apply_edge_detection_def)

lemma save_image_images:
  "original_image (save_image lib p s) = original_image s"
  "processed_image (save_image lib p s) = processed_image s"
  by (auto simp add: save_image_def showwarning_def showerror_def showinfo_def status_config_def
      split: option.splits sum.splits)

lemma upload_image_derived:
  assumes "processed_derived lib s" "\<not> half_loads lib (Upload p)"
  shows "processed_derived lib (upload_image lib p s)"
proof (cases "p = []")
  case True
  then show ?thesis using assms(1) by (simp add: upload_image_def)
next
  case False
  show ?thesis
  proof (cases "Image_open lib p")
    case (Inl e)
    then have "upload_image lib p s = showerror ''Error'' (''Failed to load image: '' @ str_exn e) s"
      using False by (simp add: upload_image_raises(1))
    then have "original_image (upload_image lib p s) = original_image s"
      "processed_image (upload_image lib p s) = processed_image s"
      by (simp_all add: showerror_def)
    then have "processed_derived lib (upload_image lib p s) = processed_derived lib s"
      by (rule processed_derived_cong)
    then show ?thesis using assms(1) by simp
  next
    case (Inr img)
    then obtain c where c: "Image_copy lib img = Inr c"
      using assms(2) False by (cases "Image_copy lib img") (simp_all add: half_loads_def)
    show ?thesis
      using upload_image_images(1,2)[OF False Inr, of s] c
      by (intro processed_derived_copy[of _ img c]) simp_all
  qed
qed

lemma reset_image_derived:
  assumes "processed_derived lib s"
  shows "processed_derived lib (fst (reset_image lib s))"
proof (cases "original_image s")
  case None
  then show ?thesis using assms by (simp add: reset_image_def)
next
  case (Some original)
  show ?thesis
  proof (cases "Image_copy lib original")
    case (Inl e)
    then show ?thesis using assms Some by (simp add: reset_image_raises)
  next
    case (Inr c)
    show ?thesis
      using reset_image_images[OF Some Inr] Inr
      by (intro processed_derived_copy[of _ original c]) simp_all
  qed
qed

lemma apply_filter_derived:
  assumes "processed_derived lib s"
  shows "processed_derived lib (apply_filter lib k s)"
proof (cases "original_image s")
  case None
  then show ?thesis using assms by (simp add: apply_filter_None)
next
  case (Some original)
  show ?thesis
  proof (cases "filter_image lib k original")
    case (Inl e)
    then have "processed_image (apply_filter lib k s) = processed_image s"
      using apply_filter_processed[OF Some, of lib k] by simp
    then have "processed_derived lib (apply_filter lib k s) = processed_derived lib s"
      by (intro processed_derived_cong) (simp_all only: apply_filter_original)
    then show ?thesis using assms by simp
  next
    case (Inr r)
    then have "processed_image (apply_filter lib k s) = Some r"
      using apply_filter_processed[OF Some, of lib k] by simp
    moreover have "original_image (apply_filter lib k s) = Some original"
      using Some by (simp only: apply_filter_original)
    ultimately show ?thesis
      using derived_filter[OF Inr] by (simp add: processed_derived_def)
  qed
qed

lemma step_derived:
  assumes "processed_derived lib s" "\<not> half_loads lib ev"
  shows "processed_derived lib (step lib s ev)"
proof (cases ev)
  case (Upload p)
  then show ?thesis using assms by (simp add: upload_image_derived)
next
  case (Save p)
  have "processed_derived lib (save_image lib p s) = processed_derived lib s"
    by (intro processed_derived_cong) (simp_all only: save_image_images)
  then show ?thesis using assms(1) Save by simp
next
  case Reset
  then show ?thesis using assms(1) by (simp add: reset_image_derived)
next
  case (Filter k)
  then show ?thesis using assms(1) by (simp add: apply_filter_derived)
next
  case (Configure w h)
  have "processed_derived lib (s\<lparr>canvas_winfo := (w, h)\<rparr>) = processed_derived lib s"
    by (intro processed_derived_cong) simp_all
  then show ?thesis using assms(1) Configure by simp
qed

lemma run_derived:
  assumes "processed_derived lib s" "\<not> list_ex (half_loads lib) evs"
  shows "processed_derived lib (run lib s evs)"
  using assms
proof (induction evs arbitrary: s)
  case Nil
  then show ?case by (simp add: run_Nil)
next
  case (Cons ev evs)
  then show ?case by (simp add: run_Cons step_derived)
qed




section \<open>Sizes and channels of the filtered image\<close>

lemma and_then_eq_Inr:
  "and_then r f = Inr y \<longleftrightarrow> (\<exists>x. r = Inr x \<and> f x = Inr y)"
  by (cases r) simp_all

lemma filter_image_size:
  assumes "keeps_sizes lib" "filter_image lib k original = Inr r"
  shows "img_size r = img_size original"
proof -
  have c: "Image_copy lib i = Inr j \<Longrightarrow> img_size j = img_size i" for i j
    using assms(1) unfolding keeps_sizes_def by blast
  have v: "Image_convert lib i m = Inr j \<Longrightarrow> img_size j = img_size i" for i j m
    using assms(1) unfolding keeps_sizes_def by blast
  have f: "Image_filter lib i g = Inr j \<Longrightarrow> img_size j = img_size i" for i j g
    using assms(1) unfolding keeps_sizes_def by blast
  have q: "Image_quantize lib i n = Inr j \<Longrightarrow> img_size j = img_size i" for i j n
    using assms(1) unfolding keeps_sizes_def by blast
  have e: "ImageEnhance_Color lib i x = Inr j \<Longrightarrow> img_size j = img_size i" for i j x
    using assms(1) unfolding keeps_sizes_def by blast
  show ?thesis
  proof (cases k)
    case Black_White
    then show ?thesis using assms(2)
      by (auto simp add: black_white_image_def and_then_eq_Inr dest!: v)
  next
    case Blur
    then show ?thesis using assms(2) by (auto simp add: blur_image_def dest!: f)
  next
    case Sharpen
    then show ?thesis using assms(2) by (auto simp add: sharpen_image_def dest!: f)
  next
    case Cartoon
    then show ?thesis using assms(2)
      by (auto simp add: cartoon_image_def and_then_eq_Inr split: if_splits
          dest!: c v f q e)
  next
    case Edge_Detection
    then show ?thesis using assms(2)
      by (auto simp add: edge_detection_image_def and_then_eq_Inr dest!: v f)
  qed
qed

text \<open>
  Claim C10. With a library whose copy, convert, filter, quantize and colour enhancement
  keep the size of an image, the processed image a filter handler produces has the width
  and height of the original image.
\<close>

theorem filters_keep_size:
  assumes "keeps_sizes lib" "original_image s = Some original"
    and "filter_image lib k original = Inr r"
  shows "processed_image (apply_filter lib k s) = Some r \<and> img_size r = img_size original"
  using apply_filter_processed[OF assms(2), of lib k] filter_image_size[OF assms(1,3)] assms(3)
  by simp

lemma filter_image_gray:
  assumes "converts_gray lib"
  shows "black_white_image lib original = Inr r \<Longrightarrow>
           equal_rgb r \<and> complete r \<and> img_size r = img_size original"
    and "edge_detection_image lib original = Inr r \<Longrightarrow>
           equal_rgb r \<and> complete r \<and> img_size r = img_size original"
proof -
  have v: "Image_convert lib i m = Inr j \<Longrightarrow>
             img_mode j = m \<and> img_size j = img_size i \<and> complete j" for i j m
    using assms unfolding converts_gray_def by blast
  have f: "Image_filter lib i g = Inr j \<Longrightarrow>
             img_mode j = img_mode i \<and> img_size j = img_size i \<and> complete j" for i j g
    using assms unfolding converts_gray_def by blast
  have g: "img_mode i = ''L'' \<Longrightarrow> Image_convert lib i ''RGB'' = Inr j \<Longrightarrow> equal_rgb j" for i j
    using assms unfolding converts_gray_def by blast
  show "equal_rgb r \<and> complete r \<and> img_size r = img_size original"
    if bw: "black_white_image lib original = Inr r"
  proof -
    obtain gray where
      1: "Image_convert lib original ''L'' = Inr gray" and
      2: "Image_convert lib gray ''RGB'' = Inr r"
      using bw by (auto simp add: black_white_image_def and_then_eq_Inr)
    have "img_mode gray = ''L''" using v[OF 1] by simp
    then have "equal_rgb r" using 2 by (rule g)
    then show ?thesis using v[OF 1] v[OF 2] by simp
  qed
  show "equal_rgb r \<and> complete r \<and> img_size r = img_size original"
    if ed: "edge_detection_image lib original = Inr r"
  proof -
    obtain gray edges where
      1: "Image_convert lib original ''L'' = Inr gray" and
      2: "Image_filter lib gray FIND_EDGES = Inr edges" and
      3: "Image_convert lib edges ''RGB'' = Inr r"
      using ed by (auto simp add: edge_detection_image_def and_then_eq_Inr)
    have "img_mode edges = ''L''" using v[OF 1] f[OF 2] by simp
    then have "equal_rgb r" using 3 by (rule g)
    then show ?thesis using v[OF 1] f[OF 2] v[OF 3] by simp
  qed
qed

text \<open>
  Claim C8. With a library whose \<^verbatim>\<open>convert\<close> and \<^verbatim>\<open>filter\<close> return an image of the same
  size with all its pixels, \<^verbatim>\<open>convert\<close> in the mode asked for and \<^verbatim>\<open>filter\<close> in the mode of
  its argument, and whose conversion from \<^verbatim>\<open>"L"\<close> to \<^verbatim>\<open>"RGB"\<close> copies the band into the
  three channels, the processed image of the grayscale handler and that of the edge
  detection handler have a pixel for every position of the original image, and equal R,
  G and B values at every pixel.
\<close>

theorem gray_outputs_have_equal_channels:
  assumes "converts_gray lib" "original_image s = Some original"
  shows "(black_white_image lib original = Inr r \<longrightarrow>
            processed_image (apply_black_white lib s) = Some r \<and>
            equal_rgb r \<and> complete r \<and> img_size r = img_size original) \<and>
         (edge_detection_image lib original = Inr r' \<longrightarrow>
            processed_image (apply_edge_detection lib s) = Some r' \<and>
            equal_rgb r' \<and> complete r' \<and> img_size r' = img_size original)"
  using apply_filter_processed[OF assms(2), of lib Black_White]
    apply_filter_processed[OF assms(2), of lib Edge_Detection]
    filter_image_gray[OF assms(1), of original]
  by auto

lemma demo_load_eq: "demo_load img = Inr r \<Longrightarrow> r = img"
  by (simp add: demo_load_def split: if_splits)

lemma keeps_sizes_demo: "keeps_sizes demo_pil"
  unfolding keeps_sizes_def
  by (auto simp add: demo_convert_def demo_filter_def demo_quantize_def demo_enhance_def
      and_then_eq_Inr dest!: demo_load_eq split: if_splits)

lemma equal_rgb_to_rgb_L: "list_all (\<lambda>px. case px of [r, g, b] \<Rightarrow> r = g \<and> g = b | _ \<Rightarrow> False)
     (map (to_rgb ''L'') xs)"
  by (induction xs) (simp_all add: to_rgb_def)

lemma demo_load_complete: "demo_load img = Inr r \<Longrightarrow> r = img \<and> complete img"
  by (simp add: demo_load_def complete_def split: if_splits)

lemma demo_convert_mode:
  "demo_convert img m = Inr r \<Longrightarrow> img_mode r = m \<and> img_size r = img_size img \<and> complete r"
  by (auto simp add: demo_convert_def and_then_eq_Inr complete_def
      dest!: demo_load_complete split: if_splits)

lemma demo_filter_mode:
  "demo_filter img k = Inr r \<Longrightarrow>
     img_mode r = img_mode img \<and> img_size r = img_size img \<and> complete r"
  by (auto simp add: demo_filter_def and_then_eq_Inr complete_def dest!: demo_load_complete)

lemma demo_convert_gray:
  "img_mode img = ''L'' \<Longrightarrow> demo_convert img ''RGB'' = Inr r \<Longrightarrow> equal_rgb r"
  by (auto simp add: demo_convert_def and_then_eq_Inr equal_rgb_def equal_rgb_to_rgb_L
      dest!: demo_load_eq)

lemma converts_gray_demo: "converts_gray demo_pil"
  unfolding converts_gray_def
  using demo_convert_mode demo_filter_mode demo_convert_gray by simp

lemma edge_detection_photo:
  "edge_detection_image demo_pil photo =
     Inr \<lparr>img_mode = ''RGB'', img_size = (2, 2),
          img_data = [[179, 179, 179], [106, 106, 106], [226, 226, 226], [155, 155, 155]]\<rparr>"
  by (simp add: edge_detection_image_def demo_convert_def demo_filter_def demo_load_def photo_def
      luminance_def to_rgb_def)

lemma cartoon_image_photo:
  "filter_image demo_pil Cartoon photo =
     Inr \<lparr>img_mode = ''RGB'', img_size = (2, 2),
          img_data = [[255, 0, 0], [0, 255, 0], [0, 0, 255], [192, 192, 192]]\<rparr>"
proof -
  have "Image_convert demo_pil photo ''RGB'' = Inr photo"
    by (simp add: demo_convert_def) (simp add: photo_def to_rgb_def)
  then have "cartoon_image demo_pil photo = cartoon_pipeline demo_pil photo"
    by (intro cartoon_image_pipeline) simp_all
  then show ?thesis by (simp add: cartoon_pipeline_photo)
qed

theorem filters_keep_size_witness:
  "keeps_sizes demo_pil \<and>
   original_image (upload_image demo_pil ''photo.png'' create_widgets) = Some photo \<and>
   processed_image (apply_filter demo_pil Cartoon (upload_image demo_pil ''photo.png'' create_widgets)) =
     Some \<lparr>img_mode = ''RGB'', img_size = (2, 2),
           img_data = [[255, 0, 0], [0, 255, 0], [0, 0, 255], [192, 192, 192]]\<rparr> \<and>
   img_size \<lparr>img_mode = ''RGB'', img_size = (2, 2),
           img_data = [[255, 0, 0], [0, 255, 0], [0, 0, 255], [192, 192, 192]]\<rparr> = img_size photo"
proof -
  let ?s = "upload_image demo_pil ''photo.png'' create_widgets"
  have op: "''photo.png'' \<noteq> []" "Image_open demo_pil ''photo.png'' = Inr photo"
    by (simp_all add: demo_open_def)
  have o: "original_image ?s = Some photo" by (rule upload_image_images(1)[OF op])
  show ?thesis
    using filters_keep_size[OF keeps_sizes_demo o cartoon_image_photo] keeps_sizes_demo o
    by blast
qed

theorem gray_outputs_have_equal_channels_witness:
  "converts_gray demo_pil \<and>
   original_image (upload_image demo_pil ''photo.png'' create_widgets) = Some photo \<and>
   processed_image (apply_black_white demo_pil (upload_image demo_pil ''photo.png'' create_widgets)) =
     Some \<lparr>img_mode = ''RGB'', img_size = (2, 2),
           img_data = [[76, 76, 76], [149, 149, 149], [29, 29, 29], [100, 100, 100]]\<rparr> \<and>
   equal_rgb \<lparr>img_mode = ''RGB'', img_size = (2, 2),
           img_data = [[76, 76, 76], [149, 149, 149], [29, 29, 29], [100, 100, 100]]\<rparr> \<and>
   complete \<lparr>img_mode = ''RGB'', img_size = (2, 2),
           img_data = [[76, 76, 76], [149, 149, 149], [29, 29, 29], [100, 100, 100]]\<rparr> \<and>
   processed_image (apply_edge_detection demo_pil (upload_image demo_pil ''photo.png'' create_widgets)) =
     Some \<lparr>img_mode = ''RGB'', img_size = (2, 2),
           img_data = [[179, 179, 179], [106, 106, 106], [226, 226, 226], [155, 155, 155]]\<rparr> \<and>
   equal_rgb \<lparr>img_mode = ''RGB'', img_size = (2, 2),
           img_data = [[179, 179, 179], [106, 106, 106], [226, 226, 226], [155, 155, 155]]\<rparr> \<and>
   complete \<lparr>img_mode = ''RGB'', img_size = (2, 2),
           img_data = [[179, 179, 179], [106, 106, 106], [226, 226, 226], [155, 155, 155]]\<rparr> \<and>
   img_size photo = (2, 2)"
proof -
  let ?s = "upload_image demo_pil ''photo.png'' create_widgets"
  have op: "''photo.png'' \<noteq> []" "Image_open demo_pil ''photo.png'' = Inr photo"
    by (simp_all add: demo_open_def)
  have o: "original_image ?s = Some photo" by (rule upload_image_images(1)[OF op])
  have b: "black_white_image demo_pil photo =
     Inr \<lparr>img_mode = ''RGB'', img_size = (2, 2),
          img_data = [[76, 76, 76], [149, 149, 149], [29, 29, 29], [100, 100, 100]]\<rparr>"
    using black_white_photo by simp
  have p: "img_size photo = (2, 2)" by (simp add: photo_def)
  show ?thesis
    using gray_outputs_have_equal_channels[OF converts_gray_demo o, where
        r = "\<lparr>img_mode = ''RGB'', img_size = (2, 2),
          img_data = [[76, 76, 76], [149, 149, 149], [29, 29, 29], [100, 100, 100]]\<rparr>" and
        r' = "\<lparr>img_mode = ''RGB'', img_size = (2, 2),
          img_data = [[179, 179, 179], [106, 106, 106], [226, 226, 226], [155, 155, 155]]\<rparr>"]
      b edge_detection_photo converts_gray_demo o p
    by blast
qed

end
